theory Spec2Isabelle
  imports Main "HOL-Library.Signed_Division"
begin

section \<open>Data model of scheduler.c\<close>

text \<open>
  The C program works on 32-bit \<open>int\<close> fields. They are modelled as HOL integers;
  wherever an operation of the source can leave the 32-bit range for an input the program
  accepts, the two's-complement wrap-around is written out with \<open>wrap32\<close>.
  Division is C's truncating division (\<open>sdiv\<close>).
\<close>

definition wrap32 :: "int \<Rightarrow> int" where
  "wrap32 x = (x + 2147483648) mod 4294967296 - 2147483648"

definition int32 :: "int \<Rightarrow> bool" where
  "int32 x = (- 2147483648 \<le> x \<and> x \<le> 2147483647)"

text \<open>
  \<open>struct Task\<close>. The array \<open>dependencies[MAX_TASKS]\<close> with its fill count
  \<open>dep_count\<close> is the list of its first \<open>dep_count\<close> entries. The \<open>name\<close> field
  is always \<open>"Task<id>"\<close> and only printed, so it is not stored.
\<close>

record Task =
  task_id :: int
  duration :: int
  period :: int
  priority :: int
  dependencies :: "int list"
  completed :: bool
  remaining_time :: int
  core_assigned :: int
  start_time :: int
  finish_time :: int

definition dep_count :: "Task \<Rightarrow> int" where
  "dep_count t = int (length (dependencies t))"

text \<open>
  \<open>struct DAG\<close>: \<open>num_tasks\<close> is the length of the task array. The flag
  \<open>has_cycles\<close> is written by \<open>detect_cycles\<close> and read only by \<open>display_dag\<close>;
  neither is part of this development.
\<close>

record DAG =
  tasks :: "Task list"
  adjacency_matrix :: "int list list"

definition num_tasks :: "DAG \<Rightarrow> int" where
  "num_tasks dag = int (length (tasks dag))"

text \<open>
  \<open>struct Core\<close>. The pointer \<open>current_task\<close> always points into \<open>dag->tasks\<close>, so
  it is the index of the task there, and \<open>NULL\<close> is \<open>None\<close>.
\<close>

record Core =
  core_id :: int
  current_task :: "nat option"
  time_slice_remaining :: int
  is_idle :: bool
  total_idle_time :: int

section \<open>Readiness and selection\<close>

text \<open>The dependency loop of \<open>is_task_ready\<close>: it returns false at the first dependency
  that is not completed.\<close>

fun deps_completed :: "Task list \<Rightarrow> int list \<Rightarrow> bool" where
  "deps_completed ts [] = True"
| "deps_completed ts (dep_id # ds) =
     (if \<not> completed (ts ! nat dep_id) then False else deps_completed ts ds)"

definition is_task_ready :: "Task list \<Rightarrow> nat \<Rightarrow> bool" where
  "is_task_ready ts i =
     (if completed (ts ! i) then False else deps_completed ts (dependencies (ts ! i)))"

text \<open>One iteration of the scan in \<open>find_highest_priority_ready_task\<close>; the pair is
  \<open>(highest_priority, selected_task)\<close>.\<close>

definition scan_task :: "Task list \<Rightarrow> nat \<Rightarrow> int \<times> int \<Rightarrow> int \<times> int" where
  "scan_task ts i acc =
     (case acc of (highest_priority, selected_task) \<Rightarrow>
        if is_task_ready ts i \<and> core_assigned (ts ! i) = - 1 then
          if selected_task = - 1 \<or> priority (ts ! i) > highest_priority
          then (priority (ts ! i), int i)
          else if priority (ts ! i) = highest_priority \<and>
                  period (ts ! i) < period (ts ! nat selected_task)
          then (highest_priority, int i)
          else acc
        else acc)"

definition find_highest_priority_ready_task :: "Task list \<Rightarrow> int" where
  "find_highest_priority_ready_task ts =
     snd (fold (scan_task ts) [0..<length ts] (- 1, - 1))"

section \<open>Graph construction\<close>

text \<open>The priority that \<open>apply_rate_monotonic_scheduling\<close> stores for one period. The
  product \<open>period * 9\<close> is a 32-bit product; the later \<open>10 - \<dots>\<close> stays in range.\<close>

definition rms_priority :: "int \<Rightarrow> int" where
  "rms_priority per =
     (if per = 0 then 1
      else let p = 10 - (wrap32 (per * 9) sdiv 1000);
               p = (if p < 1 then 1 else p)
           in if p > 10 then 10 else p)"

definition apply_rate_monotonic_scheduling :: "DAG \<Rightarrow> DAG" where
  "apply_rate_monotonic_scheduling d =
     d\<lparr>tasks := map (\<lambda>t. t\<lparr>priority := rms_priority (period t)\<rparr>) (tasks d)\<rparr>"

text \<open>\<open>create_dag\<close> followed by the first loop of \<open>create_custom_dag\<close>, which reads a
  duration and a period for every task and replaces a negative period by 500. The
  priority is not set before \<open>apply_rate_monotonic_scheduling\<close> runs; it is 0 here.\<close>

definition read_task :: "nat \<Rightarrow> int \<times> int \<Rightarrow> Task" where
  "read_task i dp =
     \<lparr>task_id = int i, duration = fst dp, period = (if snd dp < 0 then 500 else snd dp),
      priority = 0, dependencies = [], completed = False, remaining_time = fst dp,
      core_assigned = - 1, start_time = - 1, finish_time = - 1\<rparr>"

definition read_tasks :: "(int \<times> int) list \<Rightarrow> DAG" where
  "read_tasks dps =
     \<lparr>tasks = map (\<lambda>i. read_task i (dps ! i)) [0..<length dps],
      adjacency_matrix = replicate (length dps) (replicate (length dps) 0)\<rparr>"

text \<open>The part of one iteration of the dependency loop that follows the two reads, for a
  task id already found in range.\<close>

definition dependency_exists :: "DAG \<Rightarrow> int \<Rightarrow> int \<Rightarrow> bool" where
  "dependency_exists d task depends_on =
     list_ex (\<lambda>x. x = depends_on) (dependencies (tasks d ! nat task))"

definition add_edge :: "DAG \<Rightarrow> int \<Rightarrow> int \<Rightarrow> DAG" where
  "add_edge d task depends_on =
     d\<lparr>adjacency_matrix :=
          (adjacency_matrix d)[nat depends_on :=
             (adjacency_matrix d ! nat depends_on)[nat task := 1]],
       tasks := (tasks d)[nat task :=
             (tasks d ! nat task)\<lparr>dependencies :=
                dependencies (tasks d ! nat task) @ [depends_on]\<rparr>]\<rparr>"

definition declare_dependency :: "DAG \<Rightarrow> int \<Rightarrow> int \<Rightarrow> DAG" where
  "declare_dependency d task depends_on =
     (if depends_on < 0 \<or> depends_on \<ge> num_tasks d then d
      else if task = depends_on then d
      else if \<not> dependency_exists d task depends_on then add_edge d task depends_on
      else d)"

text \<open>The dependency loop over the numbers typed in. It ends at a task id \<open>-1\<close>. A wrong
  task id is refused before the second number is read. When the input ends before the
  \<open>-1\<close>, \<open>scanf\<close> stores nothing and the loop has no defined result: \<open>None\<close>.\<close>

fun dependency_loop :: "int list \<Rightarrow> DAG \<Rightarrow> DAG option" where
  "dependency_loop [] d = None"
| "dependency_loop (task # rest) d =
     (if task = - 1 then Some d
      else if task < 0 \<or> task \<ge> num_tasks d then dependency_loop rest d
      else case rest of
             [] \<Rightarrow> None
           | depends_on # rest' \<Rightarrow> dependency_loop rest' (declare_dependency d task depends_on))"

text \<open>\<open>create_custom_dag\<close> on the durations and periods typed in (one pair per task) and
  the numbers typed into the dependency loop. A task count outside 1..100 is replaced by
  5 in the source before the pairs are read; here the count is the number of pairs.\<close>

definition create_custom_dag :: "(int \<times> int) list \<Rightarrow> int list \<Rightarrow> DAG option" where
  "create_custom_dag dps deps =
     dependency_loop deps (apply_rate_monotonic_scheduling (read_tasks dps))"

section \<open>The simulation\<close>

text \<open>What the run writes. \<open>Trace\<close> is a line of \<open>print_execution_trace\<close> (time, core,
  task, event, remaining time), \<open>Slept\<close> a call of \<open>usleep\<close> with its microseconds.\<close>

datatype event =
    Trace int int int string int
  | Completed_line int int
  | Executing_line int int
  | Progress_bar int int
  | Slept int
  | Time_limit_line

text \<open>The global variables of the program during one run, and the console.\<close>

record state =
  dag :: DAG
  cores :: "Core list"
  simulation_time :: int
  completed_tasks :: int
  quantum :: int
  debug_mode :: bool
  console :: "event list"

abbreviation task_at :: "state \<Rightarrow> nat \<Rightarrow> Task" where
  "task_at s t \<equiv> tasks (dag s) ! t"

definition upd_task :: "nat \<Rightarrow> (Task \<Rightarrow> Task) \<Rightarrow> state \<Rightarrow> state" where
  "upd_task t f s = s\<lparr>dag := (dag s)\<lparr>tasks := (tasks (dag s))[t := f (tasks (dag s) ! t)]\<rparr>\<rparr>"

definition upd_core :: "nat \<Rightarrow> (Core \<Rightarrow> Core) \<Rightarrow> state \<Rightarrow> state" where
  "upd_core i f s = s\<lparr>cores := (cores s)[i := f (cores s ! i)]\<rparr>"

definition emit :: "event \<Rightarrow> state \<Rightarrow> state" where
  "emit e s = s\<lparr>console := console s @ [e]\<rparr>"

definition delay_ms :: "int \<Rightarrow> state \<Rightarrow> state" where
  "delay_ms ms s = (if ms > 0 \<and> ms \<le> 100 then emit (Slept (ms * 1000)) s else s)"

definition print_execution_trace :: "int \<Rightarrow> nat \<Rightarrow> nat \<Rightarrow> string \<Rightarrow> state \<Rightarrow> state" where
  "print_execution_trace time i t ev s =
     (if debug_mode s
      then emit (Trace time (int i) (task_id (task_at s t)) ev (remaining_time (task_at s t))) s
      else s)"

definition reset_task :: "Task \<Rightarrow> Task" where
  "reset_task t = t\<lparr>completed := False, remaining_time := duration t, core_assigned := - 1,
                    start_time := - 1, finish_time := - 1\<rparr>"

definition reset_dag_execution :: "DAG \<Rightarrow> DAG" where
  "reset_dag_execution d = d\<lparr>tasks := map reset_task (tasks d)\<rparr>"

definition init_core :: "nat \<Rightarrow> Core" where
  "init_core i = \<lparr>core_id = int i, current_task = None, time_slice_remaining = 0,
                  is_idle = True, total_idle_time = 0\<rparr>"

text \<open>The body of the first loop over the cores (``check for completed tasks''). A core
  that is not idle always has a task (\<open>cores_bound\<close> below), so the branch for a null
  pointer is never taken.\<close>

definition advance_core :: "nat \<Rightarrow> state \<Rightarrow> state" where
  "advance_core i s =
     (if is_idle (cores s ! i) then s
      else case current_task (cores s ! i) of
        None \<Rightarrow> s
      | Some t \<Rightarrow>
          let s1 = upd_task t (\<lambda>k. k\<lparr>remaining_time := wrap32 (remaining_time k - 1)\<rparr>) s;
              s2 = upd_core i (\<lambda>c. c\<lparr>time_slice_remaining := wrap32 (time_slice_remaining c - 1)\<rparr>) s1
          in if remaining_time (task_at s2 t) \<le> 0 then
               let s3 = upd_task t (\<lambda>k. k\<lparr>completed := True, core_assigned := - 1,
                                           finish_time := simulation_time s2\<rparr>) s2;
                   s4 = s3\<lparr>completed_tasks := completed_tasks s3 + 1\<rparr>;
                   s5 = print_execution_trace (simulation_time s4) i t ''Completed'' s4;
                   s6 = emit (Completed_line (task_id (task_at s5 t)) (int i)) s5
               in upd_core i (\<lambda>c. c\<lparr>is_idle := True, current_task := None,
                                      time_slice_remaining := 0\<rparr>) s6
             else if time_slice_remaining (cores s2 ! i) \<le> 0 then
               let s3 = print_execution_trace (simulation_time s2) i t ''Preempted'' s2;
                   s4 = upd_task t (\<lambda>k. k\<lparr>core_assigned := - 1\<rparr>) s3
               in upd_core i (\<lambda>c. c\<lparr>is_idle := True, current_task := None\<rparr>) s4
             else s2)"

text \<open>The body of the second loop (``assign tasks to idle cores'').\<close>

definition assign_core :: "nat \<Rightarrow> state \<Rightarrow> state" where
  "assign_core i s =
     (if is_idle (cores s ! i) then
        let sel = find_highest_priority_ready_task (tasks (dag s)) in
        if sel \<noteq> - 1 then
          let t = nat sel;
              s1 = upd_core i (\<lambda>c. c\<lparr>current_task := Some t, is_idle := False,
                                      time_slice_remaining := quantum s\<rparr>) s;
              s2 = upd_task t (\<lambda>k. k\<lparr>core_assigned := int i\<rparr>) s1;
              s3 = (if start_time (task_at s2 t) = - 1
                    then upd_task t (\<lambda>k. k\<lparr>start_time := simulation_time s2\<rparr>) s2 else s2);
              s4 = print_execution_trace (simulation_time s3) i t ''Started'' s3
          in emit (Executing_line (task_id (task_at s4 t)) (int i)) s4
        else s
      else s)"

text \<open>The body of the third loop (idle-time accounting).\<close>

definition count_idle :: "nat \<Rightarrow> state \<Rightarrow> state" where
  "count_idle i s =
     (if is_idle (cores s ! i)
      then upd_core i (\<lambda>c. c\<lparr>total_idle_time := total_idle_time c + 1\<rparr>) s else s)"

text \<open>One iteration of the main loop up to, and without, the safety check. \<open>pace\<close> is the
  argument handed to \<open>delay_ms\<close>; the source passes 10.\<close>

definition tick :: "int \<Rightarrow> state \<Rightarrow> state" where
  "tick pace s =
     (let n = length (cores s);
          s1 = fold advance_core [0..<n] s;
          s2 = fold assign_core [0..<n] s1;
          s3 = s2\<lparr>simulation_time := simulation_time s2 + 1\<rparr>;
          s4 = fold count_idle [0..<n] s3;
          s5 = (if simulation_time s4 mod 20 = 0
                then emit (Progress_bar (completed_tasks s4) (num_tasks (dag s4))) s4 else s4)
      in delay_ms pace s5)"

lemma simulation_time_upd_task [simp]: "simulation_time (upd_task t f s) = simulation_time s"
  by (simp add: upd_task_def)

lemma simulation_time_upd_core [simp]: "simulation_time (upd_core i f s) = simulation_time s"
  by (simp add: upd_core_def)

lemma simulation_time_emit [simp]: "simulation_time (emit e s) = simulation_time s"
  by (simp add: emit_def)

lemma simulation_time_trace [simp]:
  "simulation_time (print_execution_trace tm i t ev s) = simulation_time s"
  by (simp add: print_execution_trace_def)

lemma simulation_time_delay [simp]: "simulation_time (delay_ms ms s) = simulation_time s"
  by (simp add: delay_ms_def)

lemma simulation_time_advance_core [simp]:
  "simulation_time (advance_core i s) = simulation_time s"
  by (simp add: advance_core_def Let_def split: option.splits)

lemma simulation_time_assign_core [simp]:
  "simulation_time (assign_core i s) = simulation_time s"
  by (simp add: assign_core_def Let_def)

lemma simulation_time_count_idle [simp]:
  "simulation_time (count_idle i s) = simulation_time s"
  by (simp add: count_idle_def)

lemma simulation_time_fold:
  "(\<And>i s. simulation_time (f i s) = simulation_time s) \<Longrightarrow>
   simulation_time (fold f xs s) = simulation_time s"
  by (induction xs arbitrary: s) simp_all

lemma simulation_time_tick: "simulation_time (tick pace s) = simulation_time s + 1"
  by (simp add: tick_def Let_def simulation_time_fold)

text \<open>The main loop: it runs while tasks remain, and leaves through the safety check
  once the clock has passed 10000.\<close>

function sim_loop :: "int \<Rightarrow> state \<Rightarrow> state" where
  "sim_loop pace s =
     (if completed_tasks s < num_tasks (dag s) then
        let s' = tick pace s in
        if simulation_time s' > 10000 then emit Time_limit_line s'
        else sim_loop pace s'
      else s)"
  by pat_completeness auto
termination
  by (relation "measure (\<lambda>(pace, s). nat (10001 - simulation_time s))")
     (auto simp: simulation_time_tick)

declare sim_loop.simps [simp del]

text \<open>\<open>simulate_hybrid_scheduler\<close> up to the end of its main loop; the tables it prints
  afterwards are read off this state. \<open>quantum\<close> and \<open>debug_mode\<close> are the globals of
  the same name.\<close>

definition init_state :: "DAG \<Rightarrow> nat \<Rightarrow> int \<Rightarrow> bool \<Rightarrow> state" where
  "init_state d num_cores q dbg =
     \<lparr>dag = reset_dag_execution d, cores = map init_core [0..<num_cores],
      simulation_time = 0, completed_tasks = 0, quantum = q, debug_mode = dbg, console = []\<rparr>"

definition simulate_paced :: "int \<Rightarrow> DAG \<Rightarrow> nat \<Rightarrow> int \<Rightarrow> bool \<Rightarrow> state" where
  "simulate_paced pace d num_cores q dbg = sim_loop pace (init_state d num_cores q dbg)"

definition simulate_hybrid_scheduler :: "DAG \<Rightarrow> nat \<Rightarrow> int \<Rightarrow> bool \<Rightarrow> state" where
  "simulate_hybrid_scheduler = simulate_paced 10"

section \<open>Vocabulary of the properties\<close>

text \<open>Every stored dependency id is an index of the task array. Both constructors of the
  program only store such ids; \<open>is_task_ready\<close> reads \<open>tasks[dep_id]\<close> unchecked.\<close>

definition deps_in_range :: "Task list \<Rightarrow> bool" where
  "deps_in_range ts =
     list_all (\<lambda>t. list_all (\<lambda>d. 0 \<le> d \<and> d < int (length ts)) (dependencies t)) ts"

text \<open>The candidates of a selection: ready and bound to no core.\<close>

definition candidate :: "Task list \<Rightarrow> nat \<Rightarrow> bool" where
  "candidate ts i =
     (i < length ts \<and> \<not> completed (ts ! i) \<and>
      list_all (\<lambda>d. completed (ts ! nat d)) (dependencies (ts ! i)) \<and>
      core_assigned (ts ! i) = - 1)"

text \<open>The order the scan selects by: \<open>outranks ts s j\<close> says that task \<open>s\<close> is kept
  when task \<open>j\<close> is also a candidate.\<close>

definition outranks :: "Task list \<Rightarrow> nat \<Rightarrow> nat \<Rightarrow> bool" where
  "outranks ts s j =
     (priority (ts ! j) < priority (ts ! s) \<or>
      (priority (ts ! j) = priority (ts ! s) \<and> period (ts ! s) < period (ts ! j)) \<or>
      (priority (ts ! j) = priority (ts ! s) \<and> period (ts ! s) = period (ts ! j) \<and> s \<le> j))"

text \<open>The loop invariant of the scan after the first \<open>k\<close> tasks.\<close>

definition scan_inv :: "Task list \<Rightarrow> nat \<Rightarrow> int \<times> int \<Rightarrow> bool" where
  "scan_inv ts k acc =
     (if (\<exists>j<k. candidate ts j) then
        0 \<le> snd acc \<and> nat (snd acc) < k \<and> candidate ts (nat (snd acc)) \<and>
        fst acc = priority (ts ! nat (snd acc)) \<and>
        (\<forall>j<k. candidate ts j \<longrightarrow> outranks ts (nat (snd acc)) j)
      else snd acc = - 1)"

text \<open>The invariant of the main loop: what holds of every core and of every task at
  the head of each iteration and between the steps of its inner loops.\<close>

definition core_ok :: "state \<Rightarrow> nat \<Rightarrow> bool" where
  "core_ok s i =
     ((is_idle (cores s ! i) \<longleftrightarrow> current_task (cores s ! i) = None) \<and>
      (\<forall>t. current_task (cores s ! i) = Some t \<longrightarrow>
         t < length (tasks (dag s)) \<and> core_assigned (task_at s t) = int i \<and>
         \<not> completed (task_at s t) \<and> start_time (task_at s t) \<noteq> - 1))"

definition task_ok :: "state \<Rightarrow> nat \<Rightarrow> bool" where
  "task_ok s t =
     ((start_time (task_at s t) = - 1 \<or>
       (0 \<le> start_time (task_at s t) \<and> start_time (task_at s t) \<le> simulation_time s)) \<and>
      (completed (task_at s t) \<longrightarrow>
         start_time (task_at s t) \<noteq> - 1 \<and> start_time (task_at s t) \<le> finish_time (task_at s t)) \<and>
      (1 \<le> duration (task_at s t) \<and> duration (task_at s t) \<le> 2147483647 \<longrightarrow>
         (if completed (task_at s t) then remaining_time (task_at s t) = 0
          else 1 \<le> remaining_time (task_at s t) \<and>
               remaining_time (task_at s t) \<le> duration (task_at s t))))"

definition sched_inv :: "state \<Rightarrow> bool" where
  "sched_inv s =
     (0 \<le> simulation_time s \<and> (\<forall>i<length (cores s). core_ok s i) \<and>
      (\<forall>t<length (tasks (dag s)). task_ok s t))"

definition completion_ok :: "state \<Rightarrow> bool" where
  "completion_ok s =
     (\<forall>t<length (tasks (dag s)). completed (task_at s t) \<longrightarrow>
        start_time (task_at s t) \<le> finish_time (task_at s t) \<and>
        (1 \<le> duration (task_at s t) \<and> duration (task_at s t) \<le> 2147483647 \<longrightarrow>
           remaining_time (task_at s t) = 0))"

text \<open>What a graph is apart from its execution state: for every task its id, duration,
  period, priority (set once from the period when the graph is built) and dependency
  list. Two graphs are the same graph when they agree on these; the fields that a run
  writes (completed flag, remaining time, core, start and finish time) may differ.\<close>

definition static_of :: "Task \<Rightarrow> int \<times> int \<times> int \<times> int \<times> int list" where
  "static_of t = (task_id t, duration t, period t, priority t, dependencies t)"

definition same_graph :: "DAG \<Rightarrow> DAG \<Rightarrow> bool" where
  "same_graph d d' = (map static_of (tasks d) = map static_of (tasks d'))"

text \<open>Two states agree on everything a scheduling decision reads or writes: all but the
  trace flag, the console and the adjacency matrix.\<close>

definition same_schedule :: "state \<Rightarrow> state \<Rightarrow> bool" where
  "same_schedule s s' =
     (tasks (dag s) = tasks (dag s') \<and> cores s = cores s' \<and>
      simulation_time s = simulation_time s' \<and>
      completed_tasks s = completed_tasks s' \<and> quantum s = quantum s')"

definition schedule_of :: "state \<Rightarrow> (int \<times> int) list \<times> (int \<times> int) list" where
  "schedule_of s =
     (map (\<lambda>t. (start_time t, finish_time t)) (tasks (dag s)),
      map (\<lambda>c. (simulation_time s - total_idle_time c, total_idle_time c)) (cores s))"

text \<open>A state in which nothing can ever run: every core idle, no candidate, nothing
  completed.\<close>

definition stuck :: "state \<Rightarrow> bool" where
  "stuck s =
     (list_all is_idle (cores s) \<and> \<not> list_ex (candidate (tasks (dag s))) [0..<length (tasks (dag s))] \<and>
      completed_tasks s = 0 \<and> 0 < length (tasks (dag s)))"

text \<open>The lines of the execution trace among what a run writes.\<close>

fun is_trace :: "event \<Rightarrow> bool" where
  "is_trace (Trace tm c t ev r) = True"
| "is_trace _ = False"

text \<open>Concrete inputs used to exercise the theorems.\<close>

definition example_tasks :: "Task list" where
  "example_tasks =
     [\<lparr>task_id = 0, duration = 3, period = 600, priority = 5, dependencies = [],
        completed = True, remaining_time = 0, core_assigned = - 1, start_time = 0,
        finish_time = 3\<rparr>,
      \<lparr>task_id = 1, duration = 2, period = 400, priority = 7, dependencies = [0],
        completed = False, remaining_time = 2, core_assigned = - 1, start_time = - 1,
        finish_time = - 1\<rparr>,
      \<lparr>task_id = 2, duration = 2, period = 300, priority = 8, dependencies = [],
        completed = False, remaining_time = 2, core_assigned = - 1, start_time = - 1,
        finish_time = - 1\<rparr>,
      \<lparr>task_id = 3, duration = 4, period = 300, priority = 8, dependencies = [0],
        completed = False, remaining_time = 4, core_assigned = - 1, start_time = - 1,
        finish_time = - 1\<rparr>,
      \<lparr>task_id = 4, duration = 1, period = 100, priority = 10, dependencies = [3],
        completed = False, remaining_time = 1, core_assigned = - 1, start_time = - 1,
        finish_time = - 1\<rparr>,
      \<lparr>task_id = 5, duration = 5, period = 100, priority = 10, dependencies = [],
        completed = False, remaining_time = 3, core_assigned = 0, start_time = 1,
        finish_time = - 1\<rparr>]"

definition example_state :: state where
  "example_state =
     \<lparr>dag = \<lparr>tasks =
        [\<lparr>task_id = 0, duration = 4, period = 500, priority = 6, dependencies = [],
           completed = False, remaining_time = 3, core_assigned = 0, start_time = 0,
           finish_time = - 1\<rparr>,
         \<lparr>task_id = 1, duration = 2, period = 500, priority = 6, dependencies = [],
           completed = False, remaining_time = 2, core_assigned = - 1, start_time = - 1,
           finish_time = - 1\<rparr>,
         \<lparr>task_id = 2, duration = 1, period = 500, priority = 6, dependencies = [],
           completed = False, remaining_time = 1, core_assigned = - 1, start_time = - 1,
           finish_time = - 1\<rparr>,
         \<lparr>task_id = 3, duration = 2, period = 500, priority = 6, dependencies = [],
           completed = False, remaining_time = 1, core_assigned = 1, start_time = 0,
           finish_time = - 1\<rparr>],
        adjacency_matrix = [[0, 0, 0, 0], [0, 0, 0, 0], [0, 0, 0, 0], [0, 0, 0, 0]]\<rparr>,
      cores = [\<lparr>core_id = 0, current_task = Some 0, time_slice_remaining = 1,
                is_idle = False, total_idle_time = 0\<rparr>,
               \<lparr>core_id = 1, current_task = Some 3, time_slice_remaining = 1,
                is_idle = False, total_idle_time = 0\<rparr>],
      simulation_time = 2, completed_tasks = 0, quantum = 2, debug_mode = False,
      console = []\<rparr>"

definition example_periods :: "Task list" where
  "example_periods =
     tasks (apply_rate_monotonic_scheduling (read_tasks [(5, 1000), (5, 0), (5, 2000)]))"

text \<open>The three tasks of the end-to-end scenario, with a common priority and a common
  period.\<close>

definition scenario_task :: "int \<Rightarrow> int \<Rightarrow> int \<Rightarrow> int \<Rightarrow> Task" where
  "scenario_task i d pr per =
     \<lparr>task_id = i, duration = d, period = per, priority = pr, dependencies = [],
      completed = False, remaining_time = d, core_assigned = - 1, start_time = - 1,
      finish_time = - 1\<rparr>"

definition scenario_dag :: "int \<Rightarrow> int \<Rightarrow> DAG" where
  "scenario_dag pr per =
     \<lparr>tasks = [scenario_task 0 4 pr per, scenario_task 1 2 pr per, scenario_task 2 3 pr per],
      adjacency_matrix = [[0, 0, 0], [0, 0, 0], [0, 0, 0]]\<rparr>"

definition one_task_dag :: "int \<Rightarrow> DAG" where
  "one_task_dag dur = the (create_custom_dag [(dur, 500)] [- 1])"

definition two_cycle_dag :: DAG where
  "two_cycle_dag = the (create_custom_dag [(4, 500), (2, 300)] [0, 1, 1, 0, - 1])"

definition example_dag :: DAG where
  "example_dag = apply_rate_monotonic_scheduling (read_tasks [(4, 500), (2, 200), (3, 300)])"

section \<open>Selection: the scan and its result\<close>

lemma deps_completed_iff: "deps_completed ts ds = list_all (\<lambda>d. completed (ts ! nat d)) ds"
  by (induction ds) auto

lemma candidate_iff:
  "candidate ts i = (i < length ts \<and> is_task_ready ts i \<and> core_assigned (ts ! i) = - 1)"
  by (auto simp: candidate_def is_task_ready_def deps_completed_iff)

lemma outranks_refl: "outranks ts s s"
  by (simp add: outranks_def)

lemma outranks_trans: "outranks ts a b \<Longrightarrow> outranks ts b c \<Longrightarrow> outranks ts a c"
  unfolding outranks_def by linarith

lemma outranks_total: "outranks ts a b \<or> outranks ts b a"
  unfolding outranks_def by linarith

lemma scan_task_skip:
  "\<not> candidate ts k \<Longrightarrow> k < length ts \<Longrightarrow> scan_task ts k acc = acc"
  by (auto simp: scan_task_def candidate_iff split: prod.splits)

lemma scan_task_first:
  "candidate ts k \<Longrightarrow> snd acc = - 1 \<Longrightarrow> scan_task ts k acc = (priority (ts ! k), int k)"
  by (auto simp: scan_task_def candidate_iff split: prod.splits)

lemma scan_task_keep:
  assumes "candidate ts k" "0 \<le> snd acc" "fst acc = priority (ts ! nat (snd acc))"
    and "nat (snd acc) < k" "outranks ts (nat (snd acc)) k"
  shows "scan_task ts k acc = acc"
  using assms by (auto simp: scan_task_def candidate_iff outranks_def split: prod.splits)

lemma scan_task_replace:
  assumes "candidate ts k" "0 \<le> snd acc" "fst acc = priority (ts ! nat (snd acc))"
    and "nat (snd acc) < k" "\<not> outranks ts (nat (snd acc)) k"
  shows "snd (scan_task ts k acc) = int k \<and> fst (scan_task ts k acc) = priority (ts ! k)"
  using assms by (auto simp: scan_task_def candidate_iff outranks_def split: prod.splits)

lemma scan_inv_step:
  assumes inv: "scan_inv ts k acc" and k: "k < length ts"
  shows "scan_inv ts (Suc k) (scan_task ts k acc)"
proof (cases "candidate ts k")
  case False
  then have "(\<exists>j<Suc k. candidate ts j) = (\<exists>j<k. candidate ts j)"
    using less_Suc_eq by auto
  then show ?thesis
    using inv False scan_task_skip [OF False k, of acc]
    by (auto simp: scan_inv_def less_Suc_eq)
next
  case True
  then have ex': "\<exists>j<Suc k. candidate ts j" by blast
  show ?thesis
  proof (cases "\<exists>j<k. candidate ts j")
    case False
    then have "snd acc = - 1" using inv by (simp add: scan_inv_def)
    then have "scan_task ts k acc = (priority (ts ! k), int k)"
      using True by (rule scan_task_first [rotated])
    then show ?thesis
      using True False ex' by (auto simp: scan_inv_def less_Suc_eq outranks_refl)
  next
    case ex: True
    let ?s = "nat (snd acc)"
    from inv ex have a: "0 \<le> snd acc" "?s < k" "candidate ts ?s"
      "fst acc = priority (ts ! ?s)"
      and all: "\<forall>j<k. candidate ts j \<longrightarrow> outranks ts ?s j"
      by (simp_all add: scan_inv_def)
    show ?thesis
    proof (cases "outranks ts ?s k")
      case keep: True
      have "scan_task ts k acc = acc"
        using scan_task_keep [OF True a(1) a(4) a(2) keep] .
      then show ?thesis
        using ex' a all keep by (auto simp: scan_inv_def less_Suc_eq)
    next
      case repl: False
      have r: "snd (scan_task ts k acc) = int k" "fst (scan_task ts k acc) = priority (ts ! k)"
        using scan_task_replace [OF True a(1) a(4) a(2) repl] by simp_all
      have ks: "outranks ts k ?s" using repl outranks_total by blast
      have "\<forall>j<Suc k. candidate ts j \<longrightarrow> outranks ts k j"
        using all ks outranks_trans outranks_refl less_Suc_eq by blast
      then show ?thesis
        using ex' True r by (simp add: scan_inv_def)
    qed
  qed
qed

lemma scan_inv_fold:
  "k \<le> length ts \<Longrightarrow> scan_inv ts k (fold (scan_task ts) [0..<k] (- 1, - 1))"
proof (induction k)
  case 0
  show ?case by (simp add: scan_inv_def)
next
  case (Suc k)
  then show ?case using scan_inv_step [of ts k] by simp
qed

lemma find_highest_inv:
  "scan_inv ts (length ts) (fold (scan_task ts) [0..<length ts] (- 1, - 1))"
  by (rule scan_inv_fold) simp


lemma find_highest_none:
  "\<not> (\<exists>j. candidate ts j) \<Longrightarrow> find_highest_priority_ready_task ts = - 1"
  using find_highest_inv [of ts]
  by (auto simp: scan_inv_def find_highest_priority_ready_task_def split: if_splits)

lemma candidate_length: "candidate ts j \<Longrightarrow> j < length ts"
  by (simp add: candidate_def)

lemma find_highest_some:
  assumes "candidate ts j"
  shows "0 \<le> find_highest_priority_ready_task ts \<and>
         candidate ts (nat (find_highest_priority_ready_task ts)) \<and>
         outranks ts (nat (find_highest_priority_ready_task ts)) j"
proof -
  have "\<exists>j<length ts. candidate ts j" using assms candidate_length by blast
  then show ?thesis
    using find_highest_inv [of ts] assms candidate_length [OF assms]
    by (simp add: scan_inv_def find_highest_priority_ready_task_def)
qed

lemma is_task_ready_iff:
  "is_task_ready ts i =
     (\<not> completed (ts ! i) \<and> (\<forall>d\<in>set (dependencies (ts ! i)). completed (ts ! nat d)))"
  by (simp add: is_task_ready_def deps_completed_iff list_all_iff)

text \<open>
  Claim C2. A task is ready iff it is not completed and every id in its dependency list
  is that of a completed task. When some task is ready and bound to no core,
  \<open>find_highest_priority_ready_task\<close> returns such a task, no other such task has a
  higher priority, and none of equal priority has a smaller period; when there is none,
  it returns \<open>-1\<close>.
\<close>

theorem find_highest_priority_ready_task_selects:
  assumes "deps_in_range ts"
  shows "(\<forall>i<length ts. is_task_ready ts i =
            (\<not> completed (ts ! i) \<and>
             (\<forall>d\<in>set (dependencies (ts ! i)). completed (ts ! nat d)))) \<and>
         (let r = find_highest_priority_ready_task ts;
              ready_unassigned = (\<lambda>i. i < length ts \<and> is_task_ready ts i \<and>
                                       core_assigned (ts ! i) = - 1)
          in if (\<exists>i. ready_unassigned i) then
               0 \<le> r \<and> ready_unassigned (nat r) \<and>
               (\<forall>j. ready_unassigned j \<longrightarrow>
                  priority (ts ! j) < priority (ts ! nat r) \<or>
                  (priority (ts ! j) = priority (ts ! nat r) \<and>
                   period (ts ! nat r) \<le> period (ts ! j)))
             else r = - 1)"
proof -
  let ?r = "find_highest_priority_ready_task ts"
  have sel: "0 \<le> ?r \<and> candidate ts (nat ?r) \<and>
        (\<forall>j. candidate ts j \<longrightarrow>
           priority (ts ! j) < priority (ts ! nat ?r) \<or>
           (priority (ts ! j) = priority (ts ! nat ?r) \<and>
            period (ts ! nat ?r) \<le> period (ts ! j)))"
    if "candidate ts i" for i
  proof -
    have "outranks ts (nat ?r) j" if "candidate ts j" for j
      using find_highest_some [OF that] by simp
    then have "\<forall>j. candidate ts j \<longrightarrow>
           priority (ts ! j) < priority (ts ! nat ?r) \<or>
           (priority (ts ! j) = priority (ts ! nat ?r) \<and>
            period (ts ! nat ?r) \<le> period (ts ! j))"
      unfolding outranks_def by force
    then show ?thesis using find_highest_some [OF that] by simp
  qed
  have main: "if (\<exists>i. candidate ts i) then
               0 \<le> ?r \<and> candidate ts (nat ?r) \<and>
               (\<forall>j. candidate ts j \<longrightarrow>
                  priority (ts ! j) < priority (ts ! nat ?r) \<or>
                  (priority (ts ! j) = priority (ts ! nat ?r) \<and>
                   period (ts ! nat ?r) \<le> period (ts ! j)))
             else ?r = - 1"
  proof (cases "\<exists>i. candidate ts i")
    case True
    then obtain i where "candidate ts i" ..
    from sel [OF this] True show ?thesis by simp
  next
    case False
    from find_highest_none [OF this] False show ?thesis by simp
  qed
  have rdy: "\<forall>i<length ts. is_task_ready ts i =
            (\<not> completed (ts ! i) \<and>
             (\<forall>d\<in>set (dependencies (ts ! i)). completed (ts ! nat d)))"
    by (simp add: is_task_ready_iff)
  from main [unfolded candidate_iff] rdy show ?thesis
    unfolding Let_def by (rule conjI [rotated])
qed


lemma outranks_antisym: "outranks ts a b \<Longrightarrow> outranks ts b a \<Longrightarrow> a = b"
  unfolding outranks_def by linarith

lemma find_highest_unique:
  assumes "candidate ts t" and "\<forall>j. candidate ts j \<longrightarrow> outranks ts t j"
  shows "find_highest_priority_ready_task ts = int t"
proof -
  let ?r = "find_highest_priority_ready_task ts"
  from find_highest_some [OF assms(1)]
  have r: "0 \<le> ?r" "candidate ts (nat ?r)" "outranks ts (nat ?r) t" by simp_all
  from assms(2) r(2) have "outranks ts t (nat ?r)" by blast
  with r(3) have "nat ?r = t" by (rule outranks_antisym)
  with r(1) show ?thesis by simp
qed

lemma upd_task_sel [simp]:
  "tasks (dag (upd_task t f s)) = (tasks (dag s))[t := f (tasks (dag s) ! t)]"
  "adjacency_matrix (dag (upd_task t f s)) = adjacency_matrix (dag s)"
  "cores (upd_task t f s) = cores s"
  "completed_tasks (upd_task t f s) = completed_tasks s"
  "quantum (upd_task t f s) = quantum s"
  "debug_mode (upd_task t f s) = debug_mode s"
  "console (upd_task t f s) = console s"
  by (simp_all add: upd_task_def)

lemma upd_core_sel [simp]:
  "dag (upd_core i g s) = dag s"
  "cores (upd_core i g s) = (cores s)[i := g (cores s ! i)]"
  "completed_tasks (upd_core i g s) = completed_tasks s"
  "quantum (upd_core i g s) = quantum s"
  "debug_mode (upd_core i g s) = debug_mode s"
  "console (upd_core i g s) = console s"
  by (simp_all add: upd_core_def)

lemma emit_sel [simp]:
  "dag (emit e s) = dag s"
  "cores (emit e s) = cores s"
  "completed_tasks (emit e s) = completed_tasks s"
  "quantum (emit e s) = quantum s"
  "debug_mode (emit e s) = debug_mode s"
  "console (emit e s) = console s @ [e]"
  by (simp_all add: emit_def)

lemma print_execution_trace_sel [simp]:
  "dag (print_execution_trace tm i u ev s) = dag s"
  "cores (print_execution_trace tm i u ev s) = cores s"
  "completed_tasks (print_execution_trace tm i u ev s) = completed_tasks s"
  "quantum (print_execution_trace tm i u ev s) = quantum s"
  "debug_mode (print_execution_trace tm i u ev s) = debug_mode s"
  by (simp_all add: print_execution_trace_def)

lemma delay_ms_sel [simp]:
  "dag (delay_ms ms s) = dag s"
  "cores (delay_ms ms s) = cores s"
  "completed_tasks (delay_ms ms s) = completed_tasks s"
  "quantum (delay_ms ms s) = quantum s"
  "debug_mode (delay_ms ms s) = debug_mode s"
  by (simp_all add: delay_ms_def)

lemma wrap32_id: "int32 x \<Longrightarrow> wrap32 x = x"
  by (simp add: wrap32_def int32_def)

text \<open>What \<open>advance_core\<close> does to a core whose task finishes on this tick.\<close>

lemma advance_core_completes:
  assumes "i < length (cores s)" "\<not> is_idle (cores s ! i)"
    and "current_task (cores s ! i) = Some t" "t < length (tasks (dag s))"
    and "wrap32 (remaining_time (task_at s t) - 1) \<le> 0"
  shows "task_at (advance_core i s) t =
           (task_at s t)\<lparr>remaining_time := wrap32 (remaining_time (task_at s t) - 1),
              completed := True, core_assigned := - 1, finish_time := simulation_time s\<rparr>"
    and "cores (advance_core i s) ! i =
           (cores s ! i)\<lparr>time_slice_remaining := 0, is_idle := True, current_task := None\<rparr>"
    and "completed_tasks (advance_core i s) = completed_tasks s + 1"
  using assms by (simp_all add: advance_core_def Let_def)

lemma advance_core_preempts:
  assumes "i < length (cores s)" "\<not> is_idle (cores s ! i)"
    and "current_task (cores s ! i) = Some t" "t < length (tasks (dag s))"
    and "\<not> wrap32 (remaining_time (task_at s t) - 1) \<le> 0"
    and "wrap32 (time_slice_remaining (cores s ! i) - 1) \<le> 0"
  shows "tasks (dag (advance_core i s)) =
           (tasks (dag s))[t := (task_at s t)\<lparr>remaining_time := wrap32 (remaining_time (task_at s t) - 1),
              core_assigned := - 1\<rparr>]"
  using assms by (simp add: advance_core_def Let_def)


lemma example_find: "find_highest_priority_ready_task example_tasks = 2"
  by code_simp


theorem find_highest_priority_ready_task_selects_witness:
  "deps_in_range example_tasks \<and>
   is_task_ready example_tasks 1 \<and> core_assigned (example_tasks ! 1) = - 1 \<and>
   find_highest_priority_ready_task example_tasks = 2 \<and>
   priority (example_tasks ! 1) < priority (example_tasks ! 2) \<and>
   priority (example_tasks ! 3) = priority (example_tasks ! 2) \<and>
   period (example_tasks ! 2) \<le> period (example_tasks ! 3)"
proof -
  have h: "deps_in_range example_tasks"
    by code_simp
  have c: "is_task_ready example_tasks 1 \<and> core_assigned (example_tasks ! 1) = - 1"
    by code_simp
  have v: "priority (example_tasks ! 1) < priority (example_tasks ! 2) \<and>
   priority (example_tasks ! 3) = priority (example_tasks ! 2) \<and>
   period (example_tasks ! 2) \<le> period (example_tasks ! 3)"
    by code_simp
  from h c v example_find find_highest_priority_ready_task_selects [OF h]
  show ?thesis by blast
qed


lemma candidate_after_preempt:
  assumes "t < length ts" "is_task_ready ts t"
  shows "candidate (ts[t := (ts ! t)\<lparr>remaining_time := r, core_assigned := - 1\<rparr>]) t"
proof -
  let ?ts = "ts[t := (ts ! t)\<lparr>remaining_time := r, core_assigned := - 1\<rparr>]"
  have "completed (?ts ! u) = completed (ts ! u)" for u
    by (cases "u = t") (simp_all add: nth_list_update assms(1))
  moreover have "dependencies (?ts ! t) = dependencies (ts ! t)"
    using assms(1) by simp
  ultimately show ?thesis
    using assms by (simp add: candidate_def is_task_ready_iff list_all_iff)
qed


lemma wrap32_0 [simp]: "wrap32 0 = 0"
  by (simp add: wrap32_def)

lemma advance_core_quantum_expiry:
  assumes "i < length (cores s)" "\<not> is_idle (cores s ! i)"
    and "current_task (cores s ! i) = Some t" "t < length (tasks (dag s))"
    and "1 < remaining_time (task_at s t)" "remaining_time (task_at s t) \<le> 2147483647"
    and "time_slice_remaining (cores s ! i) = 1"
  shows "tasks (dag (advance_core i s)) =
           (tasks (dag s))[t := (task_at s t)\<lparr>remaining_time := remaining_time (task_at s t) - 1,
              core_assigned := - 1\<rparr>]"
proof -
  have w: "wrap32 (remaining_time (task_at s t) - 1) = remaining_time (task_at s t) - 1"
    using assms(5,6) by (intro wrap32_id) (simp add: int32_def)
  have "\<not> wrap32 (remaining_time (task_at s t) - 1) \<le> 0"
    unfolding w using assms(5) by simp
  moreover have "wrap32 (time_slice_remaining (cores s ! i) - 1) \<le> 0"
    using assms(7) by simp
  ultimately show ?thesis
    using advance_core_preempts [OF assms(1-4)] w by simp
qed

text \<open>
  Claim C9. Every candidate that ties with the selected task on priority and on period
  has an id at least as large. A task preempted for quantum expiry (remaining time above
  1, quantum counter at 1) is a candidate again in the very state \<open>advance_core\<close>
  leaves, and when all candidates there tie with it and have larger ids, the scan
  selects it again.
\<close>

theorem tie_goes_to_smallest_id:
  assumes "deps_in_range ts"
  shows "(\<forall>j. candidate ts j \<and>
              priority (ts ! j) = priority (ts ! nat (find_highest_priority_ready_task ts)) \<and>
              period (ts ! j) = period (ts ! nat (find_highest_priority_ready_task ts))
            \<longrightarrow> find_highest_priority_ready_task ts \<le> int j) \<and>
         (\<forall>s i t. tasks (dag s) = ts \<and> i < length (cores s) \<and> t < length ts \<and>
              \<not> is_idle (cores s ! i) \<and> current_task (cores s ! i) = Some t \<and>
              is_task_ready ts t \<and>
              1 < remaining_time (ts ! t) \<and> remaining_time (ts ! t) \<le> 2147483647 \<and>
              time_slice_remaining (cores s ! i) = 1
            \<longrightarrow> (let ts' = tasks (dag (advance_core i s)) in
                   \<not> completed (ts' ! t) \<and> candidate ts' t \<and>
                   ((\<forall>j. candidate ts' j \<longrightarrow>
                        priority (ts' ! j) = priority (ts' ! t) \<and>
                        period (ts' ! j) = period (ts' ! t) \<and> t \<le> j)
                    \<longrightarrow> find_highest_priority_ready_task ts' = int t)))"
proof (intro conjI allI impI)
  fix j
  let ?r = "find_highest_priority_ready_task ts"
  assume a: "candidate ts j \<and> priority (ts ! j) = priority (ts ! nat ?r) \<and>
             period (ts ! j) = period (ts ! nat ?r)"
  then have "outranks ts (nat ?r) j" "0 \<le> ?r"
    using find_highest_some [of ts j] by simp_all
  with a show "?r \<le> int j" by (simp add: outranks_def)
next
  fix s :: state and i t
  assume a: "tasks (dag s) = ts \<and> i < length (cores s) \<and> t < length ts \<and>
              \<not> is_idle (cores s ! i) \<and> current_task (cores s ! i) = Some t \<and>
              is_task_ready ts t \<and>
              1 < remaining_time (ts ! t) \<and> remaining_time (ts ! t) \<le> 2147483647 \<and>
              time_slice_remaining (cores s ! i) = 1"
  define ts' where "ts' = tasks (dag (advance_core i s))"
  have ts': "ts' = ts[t := (ts ! t)\<lparr>remaining_time := remaining_time (ts ! t) - 1,
                                  core_assigned := - 1\<rparr>]"
    unfolding ts'_def using a advance_core_quantum_expiry [of i s t] by blast
  have c: "candidate ts' t"
    unfolding ts' using a by (intro candidate_after_preempt) simp_all
  have nc: "\<not> completed (ts' ! t)"
    using c by (simp add: candidate_def)
  have "find_highest_priority_ready_task ts' = int t"
    if h: "\<forall>j. candidate ts' j \<longrightarrow>
           priority (ts' ! j) = priority (ts' ! t) \<and>
           period (ts' ! j) = period (ts' ! t) \<and> t \<le> j"
  proof (rule find_highest_unique [OF c])
    show "\<forall>j. candidate ts' j \<longrightarrow> outranks ts' t j"
    proof (intro allI impI)
      fix j assume "candidate ts' j"
      with h have "priority (ts' ! j) = priority (ts' ! t) \<and>
           period (ts' ! j) = period (ts' ! t) \<and> t \<le> j" by blast
      then show "outranks ts' t j" by (simp add: outranks_def)
    qed
  qed
  with c nc show "let ts' = tasks (dag (advance_core i s)) in
                   \<not> completed (ts' ! t) \<and> candidate ts' t \<and>
                   ((\<forall>j. candidate ts' j \<longrightarrow>
                        priority (ts' ! j) = priority (ts' ! t) \<and>
                        period (ts' ! j) = period (ts' ! t) \<and> t \<le> j)
                    \<longrightarrow> find_highest_priority_ready_task ts' = int t)"
    unfolding ts'_def Let_def by blast
qed


theorem tie_goes_to_smallest_id_witness:
  "deps_in_range (tasks (dag example_state)) \<and>
   candidate (tasks (dag example_state)) 2 \<and>
   find_highest_priority_ready_task (tasks (dag example_state)) = 1 \<and>
   priority (tasks (dag example_state) ! 2) = priority (tasks (dag example_state) ! 1) \<and>
   period (tasks (dag example_state) ! 2) = period (tasks (dag example_state) ! 1) \<and>
   \<not> is_idle (cores example_state ! 0) \<and> current_task (cores example_state ! 0) = Some 0 \<and>
   is_task_ready (tasks (dag example_state)) 0 \<and>
   remaining_time (tasks (dag example_state) ! 0) = 3 \<and>
   time_slice_remaining (cores example_state ! 0) = 1 \<and>
   candidate (tasks (dag (advance_core 0 example_state))) 0 \<and>
   candidate (tasks (dag (advance_core 0 example_state))) 1 \<and>
   find_highest_priority_ready_task (tasks (dag (advance_core 0 example_state))) = 0"
proof -
  let ?ts = "tasks (dag example_state)"
  let ?ts' = "tasks (dag (advance_core 0 example_state))"
  have h: "deps_in_range ?ts" by code_simp
  have a1: "candidate ?ts 2" by code_simp
  have a2: "find_highest_priority_ready_task ?ts = 1" by code_simp
  have a3: "priority (?ts ! 2) = priority (?ts ! 1)" by code_simp
  have a4: "period (?ts ! 2) = period (?ts ! 1)" by code_simp
  have a5: "\<not> is_idle (cores example_state ! 0)" by code_simp
  have a6: "current_task (cores example_state ! 0) = Some 0" by code_simp
  have a7: "is_task_ready ?ts 0" by code_simp
  have a8: "remaining_time (?ts ! 0) = 3" by code_simp
  have a9: "time_slice_remaining (cores example_state ! 0) = 1" by code_simp
  have a10: "0 < length (cores example_state)" by code_simp
  have a11: "0 < length ?ts" by code_simp
  have a12: "candidate ?ts' 1" by code_simp
  have b1: "list_all (\<lambda>j. priority (?ts' ! j) = priority (?ts' ! 0) \<and>
                        period (?ts' ! j) = period (?ts' ! 0)) [0..<4]"
    by code_simp
  have b2: "length ?ts' = 4" by code_simp
  have tie: "\<forall>j. candidate ?ts' j \<longrightarrow>
       priority (?ts' ! j) = priority (?ts' ! 0) \<and> period (?ts' ! j) = period (?ts' ! 0) \<and> 0 \<le> j"
  proof (intro allI impI)
    fix j assume "candidate ?ts' j"
    then have "j < 4" using candidate_length [of ?ts' j] b2 by simp
    then have "j \<in> set [0..<4]" by simp
    with b1 [unfolded list_all_iff]
    show "priority (?ts' ! j) = priority (?ts' ! 0) \<and> period (?ts' ! j) = period (?ts' ! 0) \<and> 0 \<le> j"
      by blast
  qed
  have pre: "?ts = ?ts \<and> 0 < length (cores example_state) \<and> 0 < length ?ts \<and>
              \<not> is_idle (cores example_state ! 0) \<and> current_task (cores example_state ! 0) = Some 0 \<and>
              is_task_ready ?ts 0 \<and>
              1 < remaining_time (?ts ! 0) \<and> remaining_time (?ts ! 0) \<le> 2147483647 \<and>
              time_slice_remaining (cores example_state ! 0) = 1"
    using a5 a6 a7 a8 a9 a10 a11 by simp
  note main = tie_goes_to_smallest_id [OF h]
  note step = main [THEN conjunct2, rule_format, OF pre, unfolded Let_def]
  from step have c0: "candidate ?ts' 0" by (elim conjE)
  from step have "find_highest_priority_ready_task ?ts' = int 0"
    by (elim conjE impE) (rule tie)
  then have c1: "find_highest_priority_ready_task ?ts' = 0" by simp
  from h a1 a2 a3 a4 a5 a6 a7 a8 a9 a12 c0 c1 show ?thesis by (intro conjI)
qed


text \<open>
  Claim C3. When the task bound to a running core has one tick left, \<open>advance_core\<close>
  marks it completed, with the current clock as its finish time, and frees the core,
  whatever the quantum counter of the core is; in particular when that counter reaches
  0 on the same tick.
\<close>

theorem completion_before_quantum_expiry:
  assumes "i < length (cores s)" "\<not> is_idle (cores s ! i)"
    and "current_task (cores s ! i) = Some t" "t < length (tasks (dag s))"
    and "remaining_time (task_at s t) = 1"
  shows "completed (task_at (advance_core i s) t) \<and>
         finish_time (task_at (advance_core i s) t) = simulation_time s \<and>
         remaining_time (task_at (advance_core i s) t) = 0 \<and>
         core_assigned (task_at (advance_core i s) t) = - 1 \<and>
         is_idle (cores (advance_core i s) ! i) \<and>
         current_task (cores (advance_core i s) ! i) = None \<and>
         completed_tasks (advance_core i s) = completed_tasks s + 1"
proof -
  have "wrap32 (remaining_time (task_at s t) - 1) \<le> 0"
    using assms(5) by simp
  from advance_core_completes [OF assms(1-4) this] assms(5) show ?thesis
    by simp
qed

theorem completion_before_quantum_expiry_witness:
  "1 < length (cores example_state) \<and> \<not> is_idle (cores example_state ! 1) \<and>
   current_task (cores example_state ! 1) = Some 3 \<and>
   3 < length (tasks (dag example_state)) \<and>
   remaining_time (task_at example_state 3) = 1 \<and>
   time_slice_remaining (cores example_state ! 1) = 1 \<and>
   completed (task_at (advance_core 1 example_state) 3) \<and>
   finish_time (task_at (advance_core 1 example_state) 3) = 2 \<and>
   core_assigned (task_at (advance_core 1 example_state) 3) = - 1"
proof -
  have a1: "1 < length (cores example_state)" by code_simp
  have a2: "\<not> is_idle (cores example_state ! 1)" by code_simp
  have a3: "current_task (cores example_state ! 1) = Some 3" by code_simp
  have a4: "3 < length (tasks (dag example_state))" by code_simp
  have a5: "remaining_time (task_at example_state 3) = 1" by code_simp
  have a6: "time_slice_remaining (cores example_state ! 1) = 1" by code_simp
  have a7: "simulation_time example_state = 2" by code_simp
  note main = completion_before_quantum_expiry [OF a1 a2 a3 a4 a5, unfolded a7]
  from a1 a2 a3 a4 a5 a6 main show ?thesis by (elim conjE) (intro conjI)
qed

lemma rms_priority_zero: "rms_priority 0 = 1"
  by (simp add: rms_priority_def)

text \<open>
  Claim C10. With the priorities of \<open>apply_rate_monotonic_scheduling\<close>, a candidate of
  period 0 has priority 1, and while it is a candidate the scan never returns a
  candidate of priority 1 whose period is positive.
\<close>

theorem aperiodic_wins_lowest_bucket:
  assumes "\<forall>k\<in>set ts. priority k = rms_priority (period k)"
    and "candidate ts a" "period (ts ! a) = 0"
  shows "priority (ts ! a) = 1 \<and> 0 \<le> find_highest_priority_ready_task ts \<and>
         (\<forall>j. candidate ts j \<and> 0 < period (ts ! j) \<and> priority (ts ! j) = 1
            \<longrightarrow> find_highest_priority_ready_task ts \<noteq> int j)"
proof -
  let ?r = "find_highest_priority_ready_task ts"
  have "ts ! a \<in> set ts" using assms(2) by (simp add: candidate_def)
  with assms(1,3) have pa: "priority (ts ! a) = 1"
    using rms_priority_zero by metis
  from find_highest_some [OF assms(2)]
  have r: "0 \<le> ?r" "outranks ts (nat ?r) a" by simp_all
  have "?r \<noteq> int j" if "0 < period (ts ! j)" "priority (ts ! j) = 1" for j
  proof
    assume "?r = int j"
    then have "outranks ts j a" using r(2) by simp
    then show False using that pa assms(3) by (simp add: outranks_def)
  qed
  with pa r(1) show ?thesis by blast
qed

theorem aperiodic_wins_lowest_bucket_witness:
  "list_all (\<lambda>k. priority k = rms_priority (period k)) example_periods \<and>
   candidate example_periods 1 \<and> period (example_periods ! 1) = 0 \<and>
   candidate example_periods 0 \<and> 0 < period (example_periods ! 0) \<and>
   priority (example_periods ! 0) = 1 \<and>
   find_highest_priority_ready_task example_periods \<noteq> 0 \<and>
   find_highest_priority_ready_task example_periods = 1"
proof -
  have h1: "\<forall>k\<in>set example_periods. priority k = rms_priority (period k)"
    by (simp add: example_periods_def apply_rate_monotonic_scheduling_def)
  have h2: "candidate example_periods 1" by code_simp
  have h3: "period (example_periods ! 1) = 0" by code_simp
  have a1: "candidate example_periods 0" by code_simp
  have a2: "0 < period (example_periods ! 0)" by code_simp
  have a3: "priority (example_periods ! 0) = 1" by code_simp
  have a4: "find_highest_priority_ready_task example_periods = 1" by code_simp
  note main = aperiodic_wins_lowest_bucket [OF h1 h2 h3]
  from main a1 a2 a3 have "find_highest_priority_ready_task example_periods \<noteq> int 0"
    by blast
  then have "find_highest_priority_ready_task example_periods \<noteq> 0" by simp
  with h1 [folded list_all_iff] h2 h3 a1 a2 a3 a4 show ?thesis by (intro conjI)
qed

section \<open>Priority assignment\<close>

lemma rms_priority_bounds: "1 \<le> rms_priority per \<and> rms_priority per \<le> 10"
  by (simp add: rms_priority_def Let_def)

lemma sdiv_nonneg: "0 \<le> x \<Longrightarrow> x sdiv 1000 = x div (1000::int)"
  by (simp add: signed_divide_int_def sgn_if)

lemma rms_priority_in_range:
  assumes "0 < per" "per \<le> 238609294"
  shows "rms_priority per = max 1 (10 - (per * 9) div 1000)"
proof -
  have "wrap32 (per * 9) = per * 9"
    using assms by (intro wrap32_id) (simp add: int32_def)
  moreover have "0 \<le> (per * 9) div 1000" using assms by simp
  ultimately show ?thesis
    using assms by (simp add: rms_priority_def Let_def sdiv_nonneg max_def)
qed

lemma rms_priority_mono:
  assumes "0 < p1" "p1 < p2" "p2 \<le> 238609294"
  shows "rms_priority p2 \<le> rms_priority p1"
proof -
  have "(p1 * 9) div 1000 \<le> (p2 * 9) div 1000"
    using assms by (intro zdiv_mono1) simp_all
  then show ?thesis
    using assms by (simp add: rms_priority_in_range)
qed

text \<open>
  Claim C4, at the periods 1000 and 238609295: the 32-bit product \<open>238609295 * 9\<close>
  wraps to a negative number, so the longer period gets priority 10 and the shorter
  one priority 1.
\<close>

theorem rms_priority_overflow:
  "rms_priority 1000 = 1 \<and> rms_priority 238609295 = 10 \<and>
   map priority (tasks (apply_rate_monotonic_scheduling
                          (read_tasks [(1, 1000), (1, 238609295)]))) = [1, 10]"
  by code_simp


section \<open>The loop invariant\<close>

lemma wrap32_dec: "1 \<le> x \<Longrightarrow> x \<le> 2147483647 \<Longrightarrow> wrap32 (x - 1) = x - 1"
  by (simp add: wrap32_def)

lemma length_advance_core [simp]:
  "length (cores (advance_core i s)) = length (cores s)"
  "length (tasks (dag (advance_core i s))) = length (tasks (dag s))"
  by (simp_all add: advance_core_def Let_def split: option.splits)

lemma advance_core_task_ok:
  assumes "sched_inv s" "i < length (cores s)" "t < length (tasks (dag s))"
  shows "task_ok (advance_core i s) t"
proof (cases "is_idle (cores s ! i)")
  case True
  then show ?thesis using assms by (simp add: advance_core_def sched_inv_def)
next
  case False
  with assms have "core_ok s i" by (simp add: sched_inv_def)
  with False obtain u where u: "current_task (cores s ! i) = Some u" "u < length (tasks (dag s))"
    "\<not> completed (task_at s u)" "start_time (task_at s u) \<noteq> - 1"
    by (auto simp: core_ok_def)
  have tu: "task_ok s u" and tt: "task_ok s t" and tm: "0 \<le> simulation_time s"
    using assms u by (simp_all add: sched_inv_def)
  show ?thesis
  proof (cases "t = u")
    case False
    then have "task_at (advance_core i s) t = task_at s t"
      using u \<open>\<not> is_idle (cores s ! i)\<close> by (simp add: advance_core_def Let_def)
    then show ?thesis using tt by (simp add: task_ok_def)
  next
    case True
    show ?thesis
      using tu u \<open>\<not> is_idle (cores s ! i)\<close> tm unfolding True
      by (auto simp: advance_core_def Let_def task_ok_def wrap32_dec)
  qed
qed


lemma advance_core_core_ok:
  assumes "sched_inv s" "i < length (cores s)" "j < length (cores s)"
  shows "core_ok (advance_core i s) j"
proof (cases "is_idle (cores s ! i)")
  case True
  then show ?thesis using assms by (simp add: advance_core_def sched_inv_def)
next
  case False
  from assms have ci: "core_ok s i" and cj: "core_ok s j" by (simp_all add: sched_inv_def)
  with False obtain u where u: "current_task (cores s ! i) = Some u" "u < length (tasks (dag s))"
    "core_assigned (task_at s u) = int i"
    "\<not> completed (task_at s u)" "start_time (task_at s u) \<noteq> - 1"
    by (auto simp: core_ok_def)
  show ?thesis
  proof (cases "j = i")
    case True
    then show ?thesis
      using u False assms(2) by (simp add: advance_core_def Let_def core_ok_def)
  next
    case ne: False
    have other: "current_task (cores s ! j) \<noteq> Some u"
      using cj u(3) ne by (auto simp: core_ok_def)
    have c: "cores (advance_core i s) ! j = cores s ! j"
      using u False ne by (simp add: advance_core_def Let_def)
    have "task_at (advance_core i s) v = task_at s v" if "v \<noteq> u" for v
      using u False that by (simp add: advance_core_def Let_def)
    then show ?thesis
      using cj other unfolding core_ok_def c by auto
  qed
qed

lemma advance_core_inv:
  assumes "sched_inv s" "i < length (cores s)"
  shows "sched_inv (advance_core i s)"
  using assms advance_core_task_ok [OF assms] advance_core_core_ok [OF assms]
  by (simp add: sched_inv_def)

lemma length_assign_core [simp]:
  "length (cores (assign_core i s)) = length (cores s)"
  "length (tasks (dag (assign_core i s))) = length (tasks (dag s))"
  by (simp_all add: assign_core_def Let_def)

lemma find_highest_result:
  "find_highest_priority_ready_task ts \<noteq> - 1 \<Longrightarrow>
   0 \<le> find_highest_priority_ready_task ts \<and>
   candidate ts (nat (find_highest_priority_ready_task ts))"
  using find_highest_none [of ts] find_highest_some [of ts] by blast

lemma assign_core_task_ok:
  assumes "sched_inv s" "i < length (cores s)" "t < length (tasks (dag s))"
  shows "task_ok (assign_core i s) t"
proof (cases "is_idle (cores s ! i) \<and> find_highest_priority_ready_task (tasks (dag s)) \<noteq> - 1")
  case False
  then have "assign_core i s = s" by (auto simp: assign_core_def)
  then show ?thesis using assms by (simp add: sched_inv_def)
next
  case True
  define u where "u = nat (find_highest_priority_ready_task (tasks (dag s)))"
  from True find_highest_result have cu: "candidate (tasks (dag s)) u"
    unfolding u_def by blast
  then have u: "u < length (tasks (dag s))" "\<not> completed (task_at s u)"
    by (simp_all add: candidate_def)
  have tu: "task_ok s u" and tt: "task_ok s t" and tm: "0 \<le> simulation_time s"
    using assms u by (simp_all add: sched_inv_def)
  show ?thesis
  proof (cases "t = u")
    case False
    then have "task_at (assign_core i s) t = task_at s t"
      using True u by (simp add: assign_core_def Let_def u_def)
    then show ?thesis using tt by (simp add: task_ok_def)
  next
    case eq: True
    show ?thesis
      using tu u True tm unfolding eq
      by (auto simp: assign_core_def Let_def task_ok_def u_def [symmetric])
  qed
qed

lemma assign_core_core_ok:
  assumes "sched_inv s" "i < length (cores s)" "j < length (cores s)"
  shows "core_ok (assign_core i s) j"
proof (cases "is_idle (cores s ! i) \<and> find_highest_priority_ready_task (tasks (dag s)) \<noteq> - 1")
  case False
  then have "assign_core i s = s" by (auto simp: assign_core_def)
  then show ?thesis using assms by (simp add: sched_inv_def)
next
  case True
  define u where "u = nat (find_highest_priority_ready_task (tasks (dag s)))"
  from True find_highest_result have cu: "candidate (tasks (dag s)) u"
    unfolding u_def by blast
  then have u: "u < length (tasks (dag s))" "\<not> completed (task_at s u)"
    "core_assigned (task_at s u) = - 1"
    by (simp_all add: candidate_def)
  from assms have cj: "core_ok s j" and tm: "0 \<le> simulation_time s"
    by (simp_all add: sched_inv_def)
  show ?thesis
  proof (cases "j = i")
    case eq: True
    show ?thesis
      using u True assms(2) tm unfolding eq
      by (simp add: assign_core_def Let_def core_ok_def u_def [symmetric])
  next
    case ne: False
    have other: "current_task (cores s ! j) \<noteq> Some u"
      using cj u(3) by (auto simp: core_ok_def)
    have c: "cores (assign_core i s) ! j = cores s ! j"
      using True ne by (simp add: assign_core_def Let_def)
    have "task_at (assign_core i s) v = task_at s v" if "v \<noteq> u" for v
      using True that by (simp add: assign_core_def Let_def u_def [symmetric])
    then show ?thesis
      using cj other unfolding core_ok_def c by auto
  qed
qed

lemma assign_core_inv:
  assumes "sched_inv s" "i < length (cores s)"
  shows "sched_inv (assign_core i s)"
  using assms assign_core_task_ok [OF assms] assign_core_core_ok [OF assms]
  by (simp add: sched_inv_def)


lemma fold_cores_inv:
  assumes step: "\<And>i s. P s \<Longrightarrow> i < length (cores s) \<Longrightarrow>
                   P (f i s) \<and> length (cores (f i s)) = length (cores s)"
    and "P s" "k \<le> length (cores s)"
  shows "P (fold f [0..<k] s) \<and> length (cores (fold f [0..<k] s)) = length (cores s)"
  using assms(3)
proof (induction k)
  case 0
  show ?case using assms(2) by simp
next
  case (Suc k)
  then have ih: "P (fold f [0..<k] s)" "length (cores (fold f [0..<k] s)) = length (cores s)"
    by simp_all
  from Suc.prems ih(2) have "k < length (cores (fold f [0..<k] s))" by simp
  from step [OF ih(1) this] ih(2) show ?case by simp
qed

lemma length_count_idle [simp]:
  "length (cores (count_idle i s)) = length (cores s)"
  "dag (count_idle i s) = dag s"
  by (simp_all add: count_idle_def)

lemma count_idle_inv:
  assumes "sched_inv s" "i < length (cores s)"
  shows "sched_inv (count_idle i s)"
proof -
  have "core_ok (count_idle i s) j" if "j < length (cores s)" for j
  proof -
    from assms that have "core_ok s j" by (simp add: sched_inv_def)
    then show ?thesis
      using assms(2) by (cases "j = i") (simp_all add: core_ok_def count_idle_def)
  qed
  moreover have "task_ok (count_idle i s) t" if "t < length (tasks (dag s))" for t
    using assms that by (simp add: sched_inv_def task_ok_def)
  ultimately show ?thesis using assms by (simp add: sched_inv_def)
qed

lemma sched_inv_clock:
  assumes "sched_inv s"
  shows "sched_inv (s\<lparr>simulation_time := simulation_time s + 1\<rparr>)"
proof -
  have "task_ok (s\<lparr>simulation_time := simulation_time s + 1\<rparr>) t"
    if "task_ok s t" for t
    using that by (auto simp: task_ok_def)
  then show ?thesis using assms by (simp add: sched_inv_def core_ok_def)
qed

lemma sched_inv_emit: "sched_inv (emit e s) = sched_inv s"
  by (simp add: sched_inv_def core_ok_def task_ok_def)

lemma sched_inv_delay: "sched_inv (delay_ms ms s) = sched_inv s"
  by (simp add: delay_ms_def sched_inv_emit)

lemma advance_loop_inv:
  assumes "sched_inv s" "k \<le> length (cores s)"
  shows "sched_inv (fold advance_core [0..<k] s) \<and>
         length (cores (fold advance_core [0..<k] s)) = length (cores s)"
  using assms by (intro fold_cores_inv) (simp_all add: advance_core_inv)

lemma assign_loop_inv:
  assumes "sched_inv s" "k \<le> length (cores s)"
  shows "sched_inv (fold assign_core [0..<k] s) \<and>
         length (cores (fold assign_core [0..<k] s)) = length (cores s)"
  using assms by (intro fold_cores_inv) (simp_all add: assign_core_inv)

lemma count_loop_inv:
  assumes "sched_inv s" "k \<le> length (cores s)"
  shows "sched_inv (fold count_idle [0..<k] s) \<and>
         length (cores (fold count_idle [0..<k] s)) = length (cores s)"
  using assms by (intro fold_cores_inv) (simp_all add: count_idle_inv)

lemma tick_inv:
  assumes "sched_inv s"
  shows "sched_inv (tick pace s)"
proof -
  define n where "n = length (cores s)"
  define s1 where "s1 = fold advance_core [0..<n] s"
  define s2 where "s2 = fold assign_core [0..<n] s1"
  define s3 where "s3 = s2\<lparr>simulation_time := simulation_time s2 + 1\<rparr>"
  define s4 where "s4 = fold count_idle [0..<n] s3"
  have 1: "sched_inv s1" "length (cores s1) = n"
    using advance_loop_inv [OF assms, of n] by (simp_all add: s1_def n_def)
  have 2: "sched_inv s2" "length (cores s2) = n"
    using assign_loop_inv [of s1 n] 1 by (simp_all add: s2_def)
  have 3: "sched_inv s3" "length (cores s3) = n"
    using sched_inv_clock [OF 2(1)] 2(2) by (simp_all add: s3_def)
  have 4: "sched_inv s4"
    using count_loop_inv [of s3 n] 3 by (simp add: s4_def)
  have "tick pace s =
          delay_ms pace (if simulation_time s4 mod 20 = 0
             then emit (Progress_bar (completed_tasks s4) (num_tasks (dag s4))) s4 else s4)"
    by (simp add: tick_def Let_def n_def s1_def s2_def s3_def s4_def)
  then show ?thesis using 4 by (simp add: sched_inv_delay sched_inv_emit)
qed

lemma length_cores_fold:
  "(\<And>i s. length (cores (f i s)) = length (cores s)) \<Longrightarrow>
   length (cores (fold f xs s)) = length (cores s)"
  by (induction xs arbitrary: s) simp_all

lemma length_cores_tick [simp]: "length (cores (tick pace s)) = length (cores s)"
  by (simp add: tick_def Let_def length_cores_fold)

lemma length_cores_funpow_tick [simp]:
  "length (cores ((tick pace ^^ n) s)) = length (cores s)"
  by (induction n) simp_all

lemma init_state_inv: "sched_inv (init_state d num_cores q dbg)"
  by (simp add: sched_inv_def init_state_def core_ok_def init_core_def task_ok_def
      reset_dag_execution_def reset_task_def)

lemma funpow_tick_inv: "sched_inv ((tick pace ^^ n) (init_state d num_cores q dbg))"
  by (induction n) (simp_all add: init_state_inv tick_inv)

lemma sim_loop_inv: "sched_inv s \<Longrightarrow> sched_inv (sim_loop pace s)"
proof (induction pace s rule: sim_loop.induct)
  case (1 pace s)
  show ?case
  proof (cases "completed_tasks s < num_tasks (dag s)")
    case False
    then show ?thesis using "1.prems" by (subst sim_loop.simps) simp
  next
    case True
    show ?thesis
    proof (cases "simulation_time (tick pace s) > 10000")
      case over: True
      then show ?thesis
        using True tick_inv [OF "1.prems", of pace]
        by (subst sim_loop.simps) (simp add: sched_inv_emit Let_def)
    next
      case under: False
      from "1.IH" [OF True refl under] tick_inv [OF "1.prems", of pace]
      have "sched_inv (sim_loop pace (tick pace s))" by simp
      then show ?thesis
        using True under by (subst sim_loop.simps) (simp add: Let_def)
    qed
  qed
qed

text \<open>The clock of a run never passes 10001, so the counters that count up (the clock,
  the idle counters, the number of completed tasks) stay far inside the 32-bit range and
  are not wrapped; only the two counters that count down from an input are.\<close>

lemma sim_loop_clock_bound:
  "simulation_time s \<le> 10000 \<Longrightarrow> simulation_time (sim_loop pace s) \<le> 10001"
proof (induction pace s rule: sim_loop.induct)
  case (1 pace s)
  show ?case
  proof (cases "completed_tasks s < num_tasks (dag s)")
    case False
    then show ?thesis using "1.prems" by (subst sim_loop.simps) simp
  next
    case True
    show ?thesis
    proof (cases "simulation_time (tick pace s) > 10000")
      case over: True
      then show ?thesis
        using True "1.prems"
        by (subst sim_loop.simps) (simp add: Let_def simulation_time_tick)
    next
      case under: False
      then have "simulation_time (tick pace s) \<le> 10000" by simp
      from "1.IH" [OF True refl under this] show ?thesis
        using True under by (subst sim_loop.simps) (simp add: Let_def)
    qed
  qed
qed

lemma sched_inv_completion_ok: "sched_inv s \<Longrightarrow> completion_ok s"
  by (simp add: sched_inv_def task_ok_def completion_ok_def)

text \<open>
  Claim C7, amended. In every state at the head of an iteration of the main loop, in
  every state between two iterations of its first inner loop (where tasks are marked
  completed), and in the state the run ends in: a completed task has a finish time not
  below its start time, and, when its duration is at least 1 (and a C \<open>int\<close>), its
  remaining time is exactly 0.
\<close>

theorem completed_task_times:
  "(\<forall>n. completion_ok ((tick 10 ^^ n) (init_state d num_cores q dbg))) \<and>
   (\<forall>n k. k \<le> num_cores \<longrightarrow>
      completion_ok (fold advance_core [0..<k] ((tick 10 ^^ n) (init_state d num_cores q dbg)))) \<and>
   completion_ok (simulate_hybrid_scheduler d num_cores q dbg)"
proof (intro conjI allI impI)
  fix n
  show "completion_ok ((tick 10 ^^ n) (init_state d num_cores q dbg))"
    by (intro sched_inv_completion_ok funpow_tick_inv)
next
  fix n k assume k: "k \<le> num_cores"
  let ?s = "(tick 10 ^^ n) (init_state d num_cores q dbg)"
  have "length (cores ?s) = num_cores"
    by (simp add: init_state_def)
  with k have "k \<le> length (cores ?s)" by simp
  from advance_loop_inv [OF funpow_tick_inv this]
  show "completion_ok (fold advance_core [0..<k] ?s)"
    by (intro sched_inv_completion_ok) simp
next
  show "completion_ok (simulate_hybrid_scheduler d num_cores q dbg)"
    unfolding simulate_hybrid_scheduler_def simulate_paced_def
    by (intro sched_inv_completion_ok sim_loop_inv init_state_inv)
qed



text \<open>
  Claim C7 as stated fails for a task of duration 0, which \<open>create_custom_dag\<close> accepts:
  it is completed on its first tick with remaining time \<open>-1\<close>.
\<close>

theorem zero_duration_remaining_negative:
  "create_custom_dag [(0, 500)] [- 1] = Some (one_task_dag 0) \<and>
   completed (task_at (simulate_hybrid_scheduler (one_task_dag 0) 1 10 False) 0) \<and>
   remaining_time (task_at (simulate_hybrid_scheduler (one_task_dag 0) 1 10 False) 0) = - 1"
proof -
  have 1: "create_custom_dag [(0, 500)] [- 1] = Some (one_task_dag 0)" by code_simp
  have 2: "completed (task_at (simulate_hybrid_scheduler (one_task_dag 0) 1 10 False) 0)"
    by code_simp
  have 3: "remaining_time (task_at (simulate_hybrid_scheduler (one_task_dag 0) 1 10 False) 0) = - 1"
    by code_simp
  from 1 2 3 show ?thesis by (intro conjI)
qed

theorem completed_task_times_witness:
  "completed (task_at ((tick 10 ^^ 2) (init_state (one_task_dag 1) 1 10 False)) 0) \<and>
   duration (task_at ((tick 10 ^^ 2) (init_state (one_task_dag 1) 1 10 False)) 0) = 1 \<and>
   start_time (task_at ((tick 10 ^^ 2) (init_state (one_task_dag 1) 1 10 False)) 0) = 0 \<and>
   finish_time (task_at ((tick 10 ^^ 2) (init_state (one_task_dag 1) 1 10 False)) 0) = 1 \<and>
   remaining_time (task_at ((tick 10 ^^ 2) (init_state (one_task_dag 1) 1 10 False)) 0) = 0 \<and>
   completed (task_at (fold advance_core [0..<1]
       ((tick 10 ^^ 1) (init_state (one_task_dag 1) 1 10 False))) 0) \<and>
   remaining_time (task_at (fold advance_core [0..<1]
       ((tick 10 ^^ 1) (init_state (one_task_dag 1) 1 10 False))) 0) = 0 \<and>
   completed (task_at (simulate_hybrid_scheduler (one_task_dag 1) 1 10 False) 0) \<and>
   remaining_time (task_at (simulate_hybrid_scheduler (one_task_dag 1) 1 10 False) 0) = 0"
proof -
  define s0 where "s0 = init_state (one_task_dag 1) 1 10 False"
  define s2 where "s2 = tick 10 (tick 10 s0)"
  define s1 where "s1 = fold advance_core [0..<1] (tick 10 s0)"
  define r where "r = simulate_hybrid_scheduler (one_task_dag 1) 1 10 False"
  have p2: "(tick 10 ^^ 2) s0 = s2" by (simp add: s2_def numeral_2_eq_2)
  have p1: "fold advance_core [0..<1] ((tick 10 ^^ 1) s0) = s1" by (simp add: s1_def)
  note main = completed_task_times [of "one_task_dag 1" 1 10 False,
      unfolded completion_ok_def, folded s0_def]
  have a1: "completed (task_at s2 0)" unfolding s2_def s0_def by code_simp
  have a2: "duration (task_at s2 0) = 1" unfolding s2_def s0_def by code_simp
  have a3: "start_time (task_at s2 0) = 0" unfolding s2_def s0_def by code_simp
  have a4: "finish_time (task_at s2 0) = 1" unfolding s2_def s0_def by code_simp
  have a5: "0 < length (tasks (dag s2))" unfolding s2_def s0_def by code_simp
  from main [THEN conjunct1, rule_format, of 0 2, unfolded p2] a1 a2 a5
  have a6: "remaining_time (task_at s2 0) = 0" by simp
  have b1: "completed (task_at s1 0)" unfolding s1_def s0_def by code_simp
  have b2: "duration (task_at s1 0) = 1" unfolding s1_def s0_def by code_simp
  have b3: "0 < length (tasks (dag s1))" unfolding s1_def s0_def by code_simp
  have "(1::nat) \<le> 1" by simp
  from main [THEN conjunct2, THEN conjunct1, rule_format, of 1 0 1, unfolded p1, OF this] b1 b2 b3
  have b4: "remaining_time (task_at s1 0) = 0" by simp
  have c1: "completed (task_at r 0)" unfolding r_def by code_simp
  have c2: "duration (task_at r 0) = 1" unfolding r_def by code_simp
  have c3: "0 < length (tasks (dag r))" unfolding r_def by code_simp
  from main [THEN conjunct2, THEN conjunct2, rule_format, of 0, folded r_def] c1 c2 c3
  have c4: "remaining_time (task_at r 0) = 0" by simp
  from a1 a2 a3 a4 a6 b1 b4 c1 c4 show ?thesis
    unfolding p2 [symmetric] p1 [symmetric] r_def s0_def by (intro conjI)
qed

section \<open>Repeatable runs, independent of pacing and tracing\<close>

lemma sim_loop_stop:
  "\<not> completed_tasks s < num_tasks (dag s) \<Longrightarrow> sim_loop pace s = s"
  by (subst sim_loop.simps) simp

lemma sim_loop_limit:
  "completed_tasks s < num_tasks (dag s) \<Longrightarrow> simulation_time (tick pace s) > 10000 \<Longrightarrow>
   sim_loop pace s = emit Time_limit_line (tick pace s)"
  by (subst sim_loop.simps) (simp add: Let_def)

lemma sim_loop_step:
  "completed_tasks s < num_tasks (dag s) \<Longrightarrow> \<not> simulation_time (tick pace s) > 10000 \<Longrightarrow>
   sim_loop pace s = sim_loop pace (tick pace s)"
  by (subst sim_loop.simps) (simp add: Let_def)

lemma same_schedule_advance:
  "same_schedule s s' \<Longrightarrow> same_schedule (advance_core i s) (advance_core i s')"
  by (simp add: same_schedule_def advance_core_def Let_def split: option.splits)

lemma same_schedule_assign:
  "same_schedule s s' \<Longrightarrow> same_schedule (assign_core i s) (assign_core i s')"
  by (simp add: same_schedule_def assign_core_def Let_def)

lemma same_schedule_count:
  "same_schedule s s' \<Longrightarrow> same_schedule (count_idle i s) (count_idle i s')"
  by (simp add: same_schedule_def count_idle_def)

lemma same_schedule_fold:
  assumes "\<And>i s s'. same_schedule s s' \<Longrightarrow> same_schedule (f i s) (f i s')"
  shows "same_schedule s s' \<Longrightarrow> same_schedule (fold f xs s) (fold f xs s')"
  by (induction xs arbitrary: s s') (simp_all add: assms)

lemma same_schedule_emit: "same_schedule s s' \<Longrightarrow> same_schedule (emit e s) (emit e' s')"
  by (simp add: same_schedule_def)

lemma same_schedule_emit_left: "same_schedule s s' \<Longrightarrow> same_schedule (emit e s) s'"
  by (simp add: same_schedule_def)

lemma same_schedule_sym: "same_schedule s s' \<Longrightarrow> same_schedule s' s"
  by (simp add: same_schedule_def)

lemma same_schedule_delay:
  "same_schedule s s' \<Longrightarrow> same_schedule (delay_ms ms s) (delay_ms ms' s')"
  by (simp add: same_schedule_def)

lemma same_schedule_tick:
  assumes "same_schedule s s'"
  shows "same_schedule (tick pace s) (tick pace' s')"
proof -
  define n where "n = length (cores s)"
  have n': "length (cores s') = n" using assms by (simp add: same_schedule_def n_def)
  define s1 where "s1 = fold advance_core [0..<n] s"
  define s1' where "s1' = fold advance_core [0..<n] s'"
  define s2 where "s2 = fold assign_core [0..<n] s1"
  define s2' where "s2' = fold assign_core [0..<n] s1'"
  define s3 where "s3 = s2\<lparr>simulation_time := simulation_time s2 + 1\<rparr>"
  define s3' where "s3' = s2'\<lparr>simulation_time := simulation_time s2' + 1\<rparr>"
  define s4 where "s4 = fold count_idle [0..<n] s3"
  define s4' where "s4' = fold count_idle [0..<n] s3'"
  have 1: "same_schedule s1 s1'"
    unfolding s1_def s1'_def using assms by (intro same_schedule_fold same_schedule_advance)
  have 2: "same_schedule s2 s2'"
    unfolding s2_def s2'_def using 1 by (intro same_schedule_fold same_schedule_assign)
  have 3: "same_schedule s3 s3'"
    using 2 by (simp add: s3_def s3'_def same_schedule_def)
  have 4: "same_schedule s4 s4'"
    unfolding s4_def s4'_def using 3 by (intro same_schedule_fold same_schedule_count)
  have t: "tick pace s = delay_ms pace (if simulation_time s4 mod 20 = 0
             then emit (Progress_bar (completed_tasks s4) (num_tasks (dag s4))) s4 else s4)"
    by (simp add: tick_def Let_def n_def s1_def s2_def s3_def s4_def)
  have t': "tick pace' s' = delay_ms pace' (if simulation_time s4' mod 20 = 0
             then emit (Progress_bar (completed_tasks s4') (num_tasks (dag s4'))) s4' else s4')"
    by (simp add: tick_def Let_def n' s1'_def s2'_def s3'_def s4'_def)
  from 4 have "simulation_time s4 = simulation_time s4'" by (simp add: same_schedule_def)
  with 4 show ?thesis
    unfolding t t' by (intro same_schedule_delay) (simp add: same_schedule_emit)
qed

lemma same_schedule_sim_loop:
  "same_schedule s s' \<Longrightarrow> same_schedule (sim_loop pace s) (sim_loop pace' s')"
proof (induction pace s arbitrary: s' rule: sim_loop.induct)
  case (1 pace s)
  from "1.prems" have eq: "completed_tasks s = completed_tasks s'"
    "num_tasks (dag s) = num_tasks (dag s')"
    by (simp_all add: same_schedule_def num_tasks_def)
  have tk: "same_schedule (tick pace s) (tick pace' s')"
    using "1.prems" by (rule same_schedule_tick)
  then have tm: "simulation_time (tick pace s) = simulation_time (tick pace' s')"
    by (simp add: same_schedule_def)
  show ?case
  proof (cases "completed_tasks s < num_tasks (dag s)")
    case False
    then show ?thesis using "1.prems" eq by (simp add: sim_loop_stop)
  next
    case True
    show ?thesis
    proof (cases "simulation_time (tick pace s) > 10000")
      case over: True
      then show ?thesis
        using True eq tm tk by (simp add: sim_loop_limit same_schedule_emit)
    next
      case under: False
      from "1.IH" [OF True refl under tk]
      show ?thesis using True under eq tm by (simp add: sim_loop_step)
    qed
  qed
qed

lemma same_schedule_of: "same_schedule s s' \<Longrightarrow> schedule_of s = schedule_of s'"
  by (simp add: same_schedule_def schedule_of_def)

lemma reset_task_static:
  "static_of t = static_of t' \<Longrightarrow> reset_task t = reset_task t'"
  by (cases t, cases t') (simp add: static_of_def reset_task_def)

lemma static_of_reset_task [simp]: "static_of (reset_task t) = static_of t"
  by (simp add: static_of_def reset_task_def)

lemma map_cong_through:
  assumes "map g xs = map g ys" and "\<And>x y. g x = g y \<Longrightarrow> f x = f y"
  shows "map f xs = map f ys"
proof (rule nth_equalityI)
  from assms(1) have len: "length xs = length ys" by (rule map_eq_imp_length_eq)
  then show "length (map f xs) = length (map f ys)" by simp
  fix i assume "i < length (map f xs)"
  then have i: "i < length xs" "i < length ys" using len by simp_all
  from assms(1) have "map g xs ! i = map g ys ! i" by simp
  with i have "g (xs ! i) = g (ys ! i)" by simp
  then have "f (xs ! i) = f (ys ! i)" by (rule assms(2))
  with i show "map f xs ! i = map f ys ! i" by simp
qed

lemma same_graph_reset:
  assumes "same_graph d d'"
  shows "tasks (reset_dag_execution d) = tasks (reset_dag_execution d')"
proof -
  from assms have "map static_of (tasks d) = map static_of (tasks d')"
    by (simp add: same_graph_def)
  then have "map reset_task (tasks d) = map reset_task (tasks d')"
    by (rule map_cong_through) (rule reset_task_static)
  then show ?thesis by (simp add: reset_dag_execution_def)
qed

lemma same_graph_init:
  assumes "same_graph d d'"
  shows "same_schedule (init_state d num_cores q dbg) (init_state d' num_cores q dbg')"
  using same_graph_reset [OF assms] by (simp add: same_schedule_def init_state_def)

text \<open>A run writes execution fields only.\<close>

lemma static_nth_update:
  "static_of k = static_of (xs ! t) \<Longrightarrow> static_of (xs[t := k] ! t) = static_of (xs ! t)"
  by (cases "t < length xs") (simp_all add: list_update_beyond)

lemma static_list_update:
  "static_of k = static_of (xs ! t) \<Longrightarrow> map static_of (xs[t := k]) = map static_of xs"
  by (cases "t < length xs") (simp_all add: list_update_beyond map_update list_update_same_conv)

lemma static_upd_task:
  assumes "\<And>k. static_of (f k) = static_of k"
  shows "map static_of (tasks (dag (upd_task t f s))) = map static_of (tasks (dag s))"
  by (simp add: static_list_update assms)

lemma static_other [simp]:
  "map static_of (tasks (dag (upd_core i g s))) = map static_of (tasks (dag s))"
  "map static_of (tasks (dag (emit e s))) = map static_of (tasks (dag s))"
  "map static_of (tasks (dag (print_execution_trace tm i t ev s))) = map static_of (tasks (dag s))"
  "map static_of (tasks (dag (s\<lparr>completed_tasks := c\<rparr>))) = map static_of (tasks (dag s))"
  by simp_all

lemma static_steps:
  "map static_of (tasks (dag (upd_task t (\<lambda>k. k\<lparr>remaining_time := r k\<rparr>) s))) =
     map static_of (tasks (dag s))"
  "map static_of (tasks (dag (upd_task t
      (\<lambda>k. k\<lparr>completed := True, core_assigned := c, finish_time := f\<rparr>) s))) =
     map static_of (tasks (dag s))"
  "map static_of (tasks (dag (upd_task t (\<lambda>k. k\<lparr>core_assigned := c\<rparr>) s))) =
     map static_of (tasks (dag s))"
  "map static_of (tasks (dag (upd_task t (\<lambda>k. k\<lparr>start_time := v\<rparr>) s))) =
     map static_of (tasks (dag s))"
  by (rule static_upd_task, simp add: static_of_def)+

lemma static_advance_core:
  "map static_of (tasks (dag (advance_core i s))) = map static_of (tasks (dag s))"
  by (simp add: advance_core_def Let_def static_steps del: upd_task_sel(1)
      split: option.splits)

lemma static_assign_core:
  "map static_of (tasks (dag (assign_core i s))) = map static_of (tasks (dag s))"
  by (simp add: assign_core_def Let_def static_steps del: upd_task_sel(1))

lemma static_fold:
  assumes "\<And>i s. map static_of (tasks (dag (f i s))) = map static_of (tasks (dag s))"
  shows "map static_of (tasks (dag (fold f xs s))) = map static_of (tasks (dag s))"
  by (induction xs arbitrary: s) (simp_all add: assms)

lemma tasks_fold_count_idle: "tasks (dag (fold count_idle xs s)) = tasks (dag s)"
  by (induction xs arbitrary: s) simp_all

lemma static_tick:
  "map static_of (tasks (dag (tick pace s))) = map static_of (tasks (dag s))"
  by (simp add: tick_def Let_def tasks_fold_count_idle static_fold static_advance_core
      static_assign_core)

lemma static_sim_loop:
  "map static_of (tasks (dag (sim_loop pace s))) = map static_of (tasks (dag s))"
proof (induction pace s rule: sim_loop.induct)
  case (1 pace s)
  show ?case
  proof (cases "completed_tasks s < num_tasks (dag s)")
    case False
    then show ?thesis by (simp add: sim_loop_stop)
  next
    case True
    show ?thesis
    proof (cases "simulation_time (tick pace s) > 10000")
      case over: True
      then show ?thesis using True by (simp add: sim_loop_limit static_tick)
    next
      case under: False
      from "1.IH" [OF True refl under] show ?thesis
        using True under by (simp add: sim_loop_step static_tick)
    qed
  qed
qed

lemma same_graph_after_run:
  "same_graph (dag (simulate_paced pace d num_cores q dbg)) d"
  by (simp add: same_graph_def simulate_paced_def static_sim_loop)
     (simp add: init_state_def reset_dag_execution_def comp_def)

text \<open>The priority is set from the period when the graph is built, so graphs built from
  the same ids, durations, periods and dependencies are the same graph.\<close>

lemma same_graph_rms:
  assumes "map (\<lambda>t. (task_id t, duration t, period t, dependencies t)) (tasks d) =
           map (\<lambda>t. (task_id t, duration t, period t, dependencies t)) (tasks d')"
  shows "same_graph (apply_rate_monotonic_scheduling d) (apply_rate_monotonic_scheduling d')"
proof -
  have "map (\<lambda>t. static_of (t\<lparr>priority := rms_priority (period t)\<rparr>)) (tasks d) =
        map (\<lambda>t. static_of (t\<lparr>priority := rms_priority (period t)\<rparr>)) (tasks d')"
    using assms by (rule map_cong_through) (simp add: static_of_def)
  then show ?thesis
    by (simp add: same_graph_def apply_rate_monotonic_scheduling_def comp_def)
qed

text \<open>
  Claim C6. A run starts by resetting the execution fields, so it is a function of the
  graph proper (ids, durations, periods, priorities, dependencies), the number of cores
  and the quantum: two graphs that agree on these give the same start and finish times
  for all tasks and the same busy and idle counters for all cores, whatever state an
  earlier run left in either. A run leaves the graph proper as it was, so running again
  on the graph a run has left repeats its result. None of this depends on the trace
  flag or on what is handed to \<open>delay_ms\<close> in place of the source's 10 (0 removes the
  delay).
\<close>

theorem runs_repeat_whatever_pacing_and_tracing:
  "schedule_of (simulate_hybrid_scheduler d num_cores q dbg) =
     schedule_of (simulate_paced pace d num_cores q dbg') \<and>
   (same_graph d d' \<longrightarrow>
      schedule_of (simulate_hybrid_scheduler d num_cores q dbg) =
      schedule_of (simulate_paced pace d' num_cores q dbg')) \<and>
   same_graph (dag (simulate_hybrid_scheduler d num_cores q dbg)) d \<and>
   schedule_of (simulate_hybrid_scheduler
                  (dag (simulate_hybrid_scheduler d num_cores q dbg)) num_cores q dbg') =
     schedule_of (simulate_hybrid_scheduler d num_cores q dbg)"
proof -
  have gen: "schedule_of (simulate_paced p a num_cores q b) =
             schedule_of (simulate_paced p' a' num_cores q b')"
    if "same_graph a a'" for a a' p p' b b'
    unfolding simulate_paced_def
    by (intro same_schedule_of same_schedule_sim_loop same_graph_init that)
  have self: "same_graph d d" by (simp add: same_graph_def)
  have left: "same_graph (dag (simulate_hybrid_scheduler d num_cores q dbg)) d"
    unfolding simulate_hybrid_scheduler_def by (rule same_graph_after_run)
  from gen [OF left] gen [OF self] gen left show ?thesis
    unfolding simulate_hybrid_scheduler_def by blast
qed

theorem runs_repeat_whatever_pacing_and_tracing_witness:
  "same_graph (scenario_dag 6 500)
     (dag (simulate_hybrid_scheduler (scenario_dag 6 500) 1 2 False)) \<and>
   map completed (tasks (scenario_dag 6 500)) = [False, False, False] \<and>
   map completed (tasks (dag (simulate_hybrid_scheduler (scenario_dag 6 500) 1 2 False))) =
     [True, True, True] \<and>
   schedule_of (simulate_hybrid_scheduler (scenario_dag 6 500) 1 2 False) =
     ([(0, 4), (4, 6), (6, 9)], [(9, 1)]) \<and>
   schedule_of (simulate_paced 0
       (dag (simulate_hybrid_scheduler (scenario_dag 6 500) 1 2 False)) 1 2 True) =
     ([(0, 4), (4, 6), (6, 9)], [(9, 1)])"
proof -
  define left where "left = dag (simulate_hybrid_scheduler (scenario_dag 6 500) 1 2 False)"
  have h: "same_graph (scenario_dag 6 500) left" unfolding left_def by code_simp
  have c0: "map completed (tasks (scenario_dag 6 500)) = [False, False, False]" by code_simp
  have c1: "map completed (tasks left) = [True, True, True]" unfolding left_def by code_simp
  have r: "schedule_of (simulate_hybrid_scheduler (scenario_dag 6 500) 1 2 False) =
     ([(0, 4), (4, 6), (6, 9)], [(9, 1)])" by code_simp
  note main = runs_repeat_whatever_pacing_and_tracing
    [where d = "scenario_dag 6 500" and d' = left and num_cores = 1 and q = 2
       and dbg = False and dbg' = True and pace = 0]
  from main have "same_graph (scenario_dag 6 500) left \<longrightarrow>
      schedule_of (simulate_hybrid_scheduler (scenario_dag 6 500) 1 2 False) =
      schedule_of (simulate_paced 0 left 1 2 True)"
    by (elim conjE)
  with h have e: "schedule_of (simulate_hybrid_scheduler (scenario_dag 6 500) 1 2 False) =
      schedule_of (simulate_paced 0 left 1 2 True)" by (rule rev_mp)
  have r': "schedule_of (simulate_paced 0 left 1 2 True) =
     ([(0, 4), (4, 6), (6, 9)], [(9, 1)])"
    using e [symmetric] r by (rule trans)
  from h c0 c1 r r' show ?thesis unfolding left_def by (intro conjI)
qed

section \<open>A dependency cycle\<close>

lemma stuck_idle: "stuck s \<Longrightarrow> i < length (cores s) \<Longrightarrow> is_idle (cores s ! i)"
  by (simp add: stuck_def list_all_length)

lemma stuck_find: "stuck s \<Longrightarrow> find_highest_priority_ready_task (tasks (dag s)) = - 1"
proof (rule find_highest_none)
  assume "stuck s"
  then have "\<not> candidate (tasks (dag s)) j" if "j < length (tasks (dag s))" for j
    using that by (simp add: stuck_def list_ex_iff)
  then show "\<not> (\<exists>j. candidate (tasks (dag s)) j)"
    using candidate_length by blast
qed

lemma fold_fixed:
  "(\<And>i. i \<in> set xs \<Longrightarrow> f i s = s) \<Longrightarrow> fold f xs s = s"
  by (induction xs) simp_all

lemma stuck_advance: "stuck s \<Longrightarrow> fold advance_core [0..<length (cores s)] s = s"
  by (rule fold_fixed) (simp add: advance_core_def stuck_idle)

lemma stuck_assign: "stuck s \<Longrightarrow> fold assign_core [0..<length (cores s)] s = s"
  by (rule fold_fixed) (simp add: assign_core_def stuck_find)

lemma count_idle_keeps:
  "completed_tasks (count_idle i s) = completed_tasks s"
  "map is_idle (cores (count_idle i s)) = map is_idle (cores s)"
proof -
  show "completed_tasks (count_idle i s) = completed_tasks s"
    by (simp add: count_idle_def)
  have "(map is_idle (cores s))[i := True] = map is_idle (cores s)"
    if "is_idle (cores s ! i)"
    using that by (cases "i < length (cores s)") (simp_all add: list_update_same_conv list_update_beyond)
  then show "map is_idle (cores (count_idle i s)) = map is_idle (cores s)"
    by (simp add: count_idle_def map_update)
qed

lemma fold_count_idle_keeps:
  "dag (fold count_idle xs s) = dag s \<and> completed_tasks (fold count_idle xs s) = completed_tasks s \<and>
   map is_idle (cores (fold count_idle xs s)) = map is_idle (cores s)"
  by (induction xs arbitrary: s) (simp_all add: count_idle_keeps)

lemma stuck_cong:
  "dag s' = dag s \<Longrightarrow> completed_tasks s' = completed_tasks s \<Longrightarrow>
   map is_idle (cores s') = map is_idle (cores s) \<Longrightarrow> stuck s \<Longrightarrow> stuck s'"
  unfolding stuck_def list_all_iff
  by (metis (no_types, lifting) image_iff list.set_map)

lemma stuck_tick:
  assumes "stuck s"
  shows "stuck (tick pace s) \<and> dag (tick pace s) = dag s"
proof -
  define s3 where "s3 = s\<lparr>simulation_time := simulation_time s + 1\<rparr>"
  define s4 where "s4 = fold count_idle [0..<length (cores s)] s3"
  have t: "tick pace s = delay_ms pace (if simulation_time s4 mod 20 = 0
             then emit (Progress_bar (completed_tasks s4) (num_tasks (dag s4))) s4 else s4)"
    by (simp add: tick_def Let_def stuck_advance stuck_assign assms s3_def s4_def)
  have d: "dag (tick pace s) = dag s" "completed_tasks (tick pace s) = completed_tasks s"
    "map is_idle (cores (tick pace s)) = map is_idle (cores s)"
    unfolding t by (simp_all add: s4_def s3_def fold_count_idle_keeps)
  from stuck_cong [OF d assms] d(1) show ?thesis by simp
qed

lemma stuck_funpow: "stuck s \<Longrightarrow> stuck ((tick pace ^^ n) s)"
  by (induction n) (simp_all add: stuck_tick)

lemma stuck_sim_loop:
  assumes "stuck s" "simulation_time s \<le> 10000"
  shows "simulation_time (sim_loop pace s) = 10001 \<and> completed_tasks (sim_loop pace s) = 0 \<and>
         last (console (sim_loop pace s)) = Time_limit_line"
  using assms
proof (induction pace s rule: sim_loop.induct)
  case (1 pace s)
  have go: "completed_tasks s < num_tasks (dag s)"
    using "1.prems"(1) by (simp add: stuck_def num_tasks_def)
  have st: "stuck (tick pace s)" using "1.prems"(1) stuck_tick by blast
  show ?case
  proof (cases "simulation_time (tick pace s) > 10000")
    case True
    then have "simulation_time (tick pace s) = 10001"
      using "1.prems"(2) by (simp add: simulation_time_tick)
    then show ?thesis
      using st by (simp add: sim_loop_limit [OF go True] stuck_def)
  next
    case False
    then have "simulation_time (tick pace s) \<le> 10000" by simp
    from "1.IH" [OF go refl False st this] show ?thesis
      by (simp add: sim_loop_step [OF go False])
  qed
qed

lemma two_cycle_stuck:
  assumes "length (tasks d) = 2"
    and "1 \<in> set (dependencies (tasks d ! 0))" "0 \<in> set (dependencies (tasks d ! 1))"
  shows "stuck (init_state d num_cores q dbg)"
proof -
  let ?ts = "tasks (dag (init_state d num_cores q dbg))"
  have ts: "?ts = map reset_task (tasks d)"
    by (simp add: init_state_def reset_dag_execution_def)
  have nc: "\<not> completed (?ts ! k)" if "k < 2" for k
    using that assms(1) by (simp add: ts reset_task_def)
  have d0: "dependencies (?ts ! 0) = dependencies (tasks d ! 0)"
    and d1: "dependencies (?ts ! 1) = dependencies (tasks d ! 1)"
    using assms(1) by (simp_all add: ts reset_task_def)
  have n0: "\<not> candidate ?ts 0"
    unfolding candidate_def list_all_iff d0 using assms(2) nc [of 1] by force
  have n1: "\<not> candidate ?ts 1"
    unfolding candidate_def list_all_iff d1 using assms(3) nc [of 0] by force
  have "[0..<length ?ts] = [0, 1]"
    using assms(1) by (simp add: ts upt_conv_Cons)
  with n0 n1 have "\<not> list_ex (candidate ?ts) [0..<length ?ts]" 
    by simp
  moreover have "list_all is_idle (cores (init_state d num_cores q dbg))"
    by (simp add: init_state_def list_all_iff init_core_def)
  ultimately show ?thesis
    using assms(1) by (simp add: stuck_def ts) (simp add: init_state_def)
qed

text \<open>
  Claim C5. For a graph of exactly two tasks, each depending on the other, no state of
  the main loop has a completed task, and the run returns: it leaves through the safety
  check, with the clock at 10001, having written the time-limit line last.
\<close>

theorem two_cycle_hits_safety_bound:
  assumes "length (tasks d) = 2" "deps_in_range (tasks d)"
    and "1 \<in> set (dependencies (tasks d ! 0))" "0 \<in> set (dependencies (tasks d ! 1))"
  shows "(\<forall>n. completed_tasks ((tick 10 ^^ n) (init_state d num_cores q dbg)) = 0) \<and>
         completed_tasks (simulate_hybrid_scheduler d num_cores q dbg) = 0 \<and>
         simulation_time (simulate_hybrid_scheduler d num_cores q dbg) = 10001 \<and>
         last (console (simulate_hybrid_scheduler d num_cores q dbg)) = Time_limit_line"
proof -
  have s: "stuck (init_state d num_cores q dbg)"
    using assms(1,3,4) by (rule two_cycle_stuck)
  have "completed_tasks ((tick 10 ^^ n) (init_state d num_cores q dbg)) = 0" for n
    using stuck_funpow [OF s, where pace = 10 and n = n] by (simp add: stuck_def)
  moreover have "simulation_time (init_state d num_cores q dbg) \<le> 10000"
    by (simp add: init_state_def)
  from stuck_sim_loop [OF s this, where pace = 10]
  have "completed_tasks (simulate_hybrid_scheduler d num_cores q dbg) = 0 \<and>
         simulation_time (simulate_hybrid_scheduler d num_cores q dbg) = 10001 \<and>
         last (console (simulate_hybrid_scheduler d num_cores q dbg)) = Time_limit_line"
    by (simp add: simulate_hybrid_scheduler_def simulate_paced_def)
  ultimately show ?thesis by blast
qed

theorem two_cycle_hits_safety_bound_witness:
  "length (tasks two_cycle_dag) = 2 \<and> deps_in_range (tasks two_cycle_dag) \<and>
   dependencies (tasks two_cycle_dag ! 0) = [1] \<and>
   dependencies (tasks two_cycle_dag ! 1) = [0] \<and>
   completed_tasks ((tick 10 ^^ 7) (init_state two_cycle_dag 2 50 False)) = 0 \<and>
   completed_tasks (simulate_hybrid_scheduler two_cycle_dag 2 50 False) = 0 \<and>
   simulation_time (simulate_hybrid_scheduler two_cycle_dag 2 50 False) = 10001 \<and>
   last (console (simulate_hybrid_scheduler two_cycle_dag 2 50 False)) = Time_limit_line"
proof -
  have 1: "length (tasks two_cycle_dag) = 2" by code_simp
  have 2: "dependencies (tasks two_cycle_dag ! 0) = [1]" by code_simp
  have 3: "dependencies (tasks two_cycle_dag ! 1) = [0]" by code_simp
  have 4: "1 \<in> set (dependencies (tasks two_cycle_dag ! 0))" unfolding 2 by simp
  have 5: "0 \<in> set (dependencies (tasks two_cycle_dag ! 1))" unfolding 3 by simp
  have r: "deps_in_range (tasks two_cycle_dag)" by code_simp
  note main = two_cycle_hits_safety_bound [OF 1 r 4 5, of 2 50 False]
  from main have 6: "completed_tasks ((tick 10 ^^ 7) (init_state two_cycle_dag 2 50 False)) = 0"
    by (elim conjE) (rule spec)
  from 1 r 2 3 6 main show ?thesis by (elim conjE) (intro conjI)
qed



section \<open>The end-to-end scenario\<close>

lemmas sim_defs = tick_def advance_core_def assign_core_def count_idle_def
  find_highest_priority_ready_task_def scan_task_def is_task_ready_def
  upd_task_def upd_core_def emit_def delay_ms_def print_execution_trace_def
  Let_def upt_conv_Cons wrap32_def num_tasks_def

lemma scenario_run:
  "simulate_hybrid_scheduler (scenario_dag pr per) 1 2 True =
     \<lparr>dag = \<lparr>tasks =
        [(scenario_task 0 4 pr per)\<lparr>completed := True, remaining_time := 0, start_time := 0,
                                     finish_time := 4\<rparr>,
         (scenario_task 1 2 pr per)\<lparr>completed := True, remaining_time := 0, start_time := 4,
                                     finish_time := 6\<rparr>,
         (scenario_task 2 3 pr per)\<lparr>completed := True, remaining_time := 0, start_time := 6,
                                     finish_time := 9\<rparr>],
        adjacency_matrix = [[0, 0, 0], [0, 0, 0], [0, 0, 0]]\<rparr>,
      cores = [\<lparr>core_id = 0, current_task = None, time_slice_remaining = 0,
                is_idle = True, total_idle_time = 1\<rparr>],
      simulation_time = 10, completed_tasks = 3, quantum = 2, debug_mode = True,
      console =
        [Trace 0 0 0 ''Started'' 4, Executing_line 0 0, Slept 10000, Slept 10000,
         Trace 2 0 0 ''Preempted'' 2, Trace 2 0 0 ''Started'' 2, Executing_line 0 0,
         Slept 10000, Slept 10000,
         Trace 4 0 0 ''Completed'' 0, Completed_line 0 0,
         Trace 4 0 1 ''Started'' 2, Executing_line 1 0, Slept 10000, Slept 10000,
         Trace 6 0 1 ''Completed'' 0, Completed_line 1 0,
         Trace 6 0 2 ''Started'' 3, Executing_line 2 0, Slept 10000, Slept 10000,
         Trace 8 0 2 ''Preempted'' 1, Trace 8 0 2 ''Started'' 1, Executing_line 2 0,
         Slept 10000,
         Trace 9 0 2 ''Completed'' 0, Completed_line 2 0, Slept 10000]\<rparr>"
  unfolding simulate_hybrid_scheduler_def simulate_paced_def init_state_def
    reset_dag_execution_def scenario_dag_def scenario_task_def
  by (simp add: sim_loop.simps reset_task_def init_core_def sim_defs)

text \<open>
  Claim C1, amended. Three tasks of durations 4, 2 and 3 that tie on priority and on
  period, no dependencies, one core, quantum 2. Task 0 starts at tick 0, is preempted at
  tick 2 with 2 remaining and started again at once, and completes with finish time 4;
  task 1 runs from tick 4 and completes with finish time 6; task 2 runs from tick 6, is
  preempted and started again at tick 8, and completes with finish time 9. The loop halts
  with the clock at 10 and the idle counter of the core at 1.
\<close>

theorem scenario_schedule:
  "filter is_trace (console (simulate_hybrid_scheduler (scenario_dag pr per) 1 2 True)) =
     [Trace 0 0 0 ''Started'' 4, Trace 2 0 0 ''Preempted'' 2, Trace 2 0 0 ''Started'' 2,
      Trace 4 0 0 ''Completed'' 0, Trace 4 0 1 ''Started'' 2, Trace 6 0 1 ''Completed'' 0,
      Trace 6 0 2 ''Started'' 3, Trace 8 0 2 ''Preempted'' 1, Trace 8 0 2 ''Started'' 1,
      Trace 9 0 2 ''Completed'' 0] \<and>
   map start_time (tasks (dag (simulate_hybrid_scheduler (scenario_dag pr per) 1 2 True))) =
     [0, 4, 6] \<and>
   map finish_time (tasks (dag (simulate_hybrid_scheduler (scenario_dag pr per) 1 2 True))) =
     [4, 6, 9] \<and>
   map completed (tasks (dag (simulate_hybrid_scheduler (scenario_dag pr per) 1 2 True))) =
     [True, True, True] \<and>
   simulation_time (simulate_hybrid_scheduler (scenario_dag pr per) 1 2 True) = 10 \<and>
   map total_idle_time (cores (simulate_hybrid_scheduler (scenario_dag pr per) 1 2 True)) = [1]"
  unfolding scenario_run by (simp add: scenario_task_def)

text \<open>Every graph that \<open>create_custom_dag\<close> builds from the three durations and one
  common period is of this form.\<close>

lemma scenario_dag_created_any:
  "0 \<le> p \<Longrightarrow>
   create_custom_dag [(4, p), (2, p), (3, p)] [- 1] = Some (scenario_dag (rms_priority p) p)"
  by (simp add: create_custom_dag_def read_tasks_def read_task_def
      apply_rate_monotonic_scheduling_def scenario_dag_def scenario_task_def upt_conv_Cons)

lemma scenario_dag_created:
  "create_custom_dag [(4, 500), (2, 500), (3, 500)] [- 1] = Some (scenario_dag 6 500)"
  by code_simp

text \<open>
  Claim C1 as stated fails on the graph \<open>create_custom_dag\<close> builds for the three
  durations with period 500: task 1 does not finish at 4.
\<close>

theorem scenario_claimed_schedule_fails:
  "create_custom_dag [(4, 500), (2, 500), (3, 500)] [- 1] = Some (scenario_dag 6 500) \<and>
   \<not> (finish_time (task_at (simulate_hybrid_scheduler (scenario_dag 6 500) 1 2 False) 1) = 4 \<and>
      finish_time (task_at (simulate_hybrid_scheduler (scenario_dag 6 500) 1 2 False) 0) = 6 \<and>
      finish_time (task_at (simulate_hybrid_scheduler (scenario_dag 6 500) 1 2 False) 2) = 9 \<and>
      total_idle_time (cores (simulate_hybrid_scheduler (scenario_dag 6 500) 1 2 False) ! 0) = 0)"
proof -
  have "finish_time (task_at (simulate_hybrid_scheduler (scenario_dag 6 500) 1 2 False) 1) = 6"
    by code_simp
  with scenario_dag_created show ?thesis by simp
qed

section \<open>Dependency declarations\<close>

lemma dependency_exists_iff:
  "dependency_exists d task depends_on = (depends_on \<in> set (dependencies (tasks d ! nat task)))"
  by (auto simp: dependency_exists_def list_ex_iff)

lemma declare_dependency_rejects:
  "depends_on < 0 \<or> depends_on \<ge> num_tasks d \<or> task = depends_on \<or>
   depends_on \<in> set (dependencies (tasks d ! nat task)) \<Longrightarrow>
   declare_dependency d task depends_on = d"
  by (auto simp: declare_dependency_def dependency_exists_iff)

lemma declare_dependency_accepts:
  "0 \<le> depends_on \<Longrightarrow> depends_on < num_tasks d \<Longrightarrow> task \<noteq> depends_on \<Longrightarrow>
   depends_on \<notin> set (dependencies (tasks d ! nat task)) \<Longrightarrow>
   declare_dependency d task depends_on = add_edge d task depends_on"
  by (simp add: declare_dependency_def dependency_exists_iff)

lemma num_tasks_add_edge [simp]: "num_tasks (add_edge d task depends_on) = num_tasks d"
  by (simp add: num_tasks_def add_edge_def)

lemma dependencies_add_edge:
  "0 \<le> task \<Longrightarrow> task < num_tasks d \<Longrightarrow>
   dependencies (tasks (add_edge d task depends_on) ! nat task) =
     dependencies (tasks d ! nat task) @ [depends_on]"
  by (simp add: add_edge_def num_tasks_def)

lemma declare_dependency_twice:
  assumes "0 \<le> task" "task < num_tasks d"
  shows "declare_dependency (declare_dependency d task depends_on) task depends_on =
         declare_dependency d task depends_on"
proof (cases "depends_on < 0 \<or> depends_on \<ge> num_tasks d \<or> task = depends_on \<or>
   depends_on \<in> set (dependencies (tasks d ! nat task))")
  case True
  then show ?thesis by (simp add: declare_dependency_rejects)
next
  case False
  then have a: "declare_dependency d task depends_on = add_edge d task depends_on"
    by (simp add: declare_dependency_accepts)
  have "depends_on \<in> set (dependencies (tasks (add_edge d task depends_on) ! nat task))"
    using assms by (simp add: dependencies_add_edge)
  then show ?thesis unfolding a by (simp add: declare_dependency_rejects)
qed

lemma num_tasks_declare_dependency [simp]:
  "num_tasks (declare_dependency d task depends_on) = num_tasks d"
  by (simp add: declare_dependency_def)

lemma dependency_loop_bad_task:
  "task \<noteq> - 1 \<Longrightarrow> task < 0 \<or> task \<ge> num_tasks d \<Longrightarrow>
   dependency_loop (task # rest) d = dependency_loop rest d"
  by auto

lemma dependency_loop_pair:
  "0 \<le> task \<Longrightarrow> task < num_tasks d \<Longrightarrow>
   dependency_loop (task # depends_on # rest) d =
     dependency_loop rest (declare_dependency d task depends_on)"
  by auto

text \<open>
  Claim C8. In the dependency loop of \<open>create_custom_dag\<close>: a task id out of range (other
  than the terminating \<open>-1\<close>) is refused and the loop goes on with the same graph; so
  is a pair whose second id is out of range, a pair of equal ids, and a pair already
  declared, and \<open>declare_dependency\<close> returns the graph as it was. A valid new pair
  is appended to the dependency list, and declaring it a second time changes nothing.
\<close>

theorem invalid_dependency_rejected:
  "(task \<noteq> - 1 \<and> (task < 0 \<or> task \<ge> num_tasks d)
      \<longrightarrow> dependency_loop (task # rest) d = dependency_loop rest d) \<and>
   (0 \<le> task \<and> task < num_tasks d \<and>
    (depends_on < 0 \<or> depends_on \<ge> num_tasks d \<or> task = depends_on \<or>
     depends_on \<in> set (dependencies (tasks d ! nat task)))
      \<longrightarrow> declare_dependency d task depends_on = d \<and>
          dependency_loop (task # depends_on # rest) d = dependency_loop rest d) \<and>
   (0 \<le> task \<and> task < num_tasks d \<and> 0 \<le> depends_on \<and> depends_on < num_tasks d \<and>
    task \<noteq> depends_on \<and> depends_on \<notin> set (dependencies (tasks d ! nat task))
      \<longrightarrow> dependency_loop (task # depends_on # rest) d =
            dependency_loop rest (add_edge d task depends_on) \<and>
          dependencies (tasks (add_edge d task depends_on) ! nat task) =
            dependencies (tasks d ! nat task) @ [depends_on] \<and>
          dependency_loop (task # depends_on # task # depends_on # rest) d =
            dependency_loop (task # depends_on # rest) d)"
proof (intro conjI impI)
  assume "task \<noteq> - 1 \<and> (task < 0 \<or> task \<ge> num_tasks d)"
  then show "dependency_loop (task # rest) d = dependency_loop rest d"
    by (intro dependency_loop_bad_task) simp_all
next
  assume a: "0 \<le> task \<and> task < num_tasks d \<and>
    (depends_on < 0 \<or> depends_on \<ge> num_tasks d \<or> task = depends_on \<or>
     depends_on \<in> set (dependencies (tasks d ! nat task)))"
  then show r: "declare_dependency d task depends_on = d"
    by (intro declare_dependency_rejects) simp
  from a show "dependency_loop (task # depends_on # rest) d = dependency_loop rest d"
    by (simp only: dependency_loop_pair r)
next
  assume a: "0 \<le> task \<and> task < num_tasks d \<and> 0 \<le> depends_on \<and> depends_on < num_tasks d \<and>
    task \<noteq> depends_on \<and> depends_on \<notin> set (dependencies (tasks d ! nat task))"
  then have acc: "declare_dependency d task depends_on = add_edge d task depends_on"
    by (intro declare_dependency_accepts) simp_all
  from a show "dependency_loop (task # depends_on # rest) d =
            dependency_loop rest (add_edge d task depends_on)"
    by (simp only: dependency_loop_pair acc)
  from a show "dependencies (tasks (add_edge d task depends_on) ! nat task) =
            dependencies (tasks d ! nat task) @ [depends_on]"
    by (intro dependencies_add_edge) simp_all
  from a have t: "0 \<le> task" "task < num_tasks d" by simp_all
  have "dependency_loop (task # depends_on # task # depends_on # rest) d =
        dependency_loop (task # depends_on # rest) (declare_dependency d task depends_on)"
    using t by (rule dependency_loop_pair)
  also have "\<dots> = dependency_loop rest
        (declare_dependency (declare_dependency d task depends_on) task depends_on)"
    using t by (intro dependency_loop_pair) simp_all
  also have "\<dots> = dependency_loop rest (declare_dependency d task depends_on)"
    using t by (simp only: declare_dependency_twice)
  also have "\<dots> = dependency_loop (task # depends_on # rest) d"
    using t by (rule dependency_loop_pair [symmetric])
  finally show "dependency_loop (task # depends_on # task # depends_on # rest) d =
            dependency_loop (task # depends_on # rest) d" .
qed

theorem invalid_dependency_rejected_witness:
  "num_tasks example_dag = 3 \<and>
   dependency_loop [7, 1, 0, - 1] example_dag = dependency_loop [1, 0, - 1] example_dag \<and>
   dependency_loop [1, 5, 2, 0, - 1] example_dag = dependency_loop [2, 0, - 1] example_dag \<and>
   dependency_loop [1, 1, 2, 0, - 1] example_dag = dependency_loop [2, 0, - 1] example_dag \<and>
   dependency_loop [1, 0, 1, 0, 2, 1, - 1] example_dag =
     dependency_loop [1, 0, 2, 1, - 1] example_dag \<and>
   map dependencies (tasks (the (dependency_loop [7, 1, 0, 1, 5, 1, 1, 1, 0, 2, 1, - 1] example_dag)))
     = [[], [0], [1]] \<and>
   adjacency_matrix (the (dependency_loop [7, 1, 0, 1, 5, 1, 1, 1, 0, 2, 1, - 1] example_dag))
     = [[0, 1, 0], [0, 0, 1], [0, 0, 0]]"
proof -
  have n: "num_tasks example_dag = 3" by code_simp
  have e: "dependencies (tasks example_dag ! nat 1) = []" by code_simp
  note main = invalid_dependency_rejected [where d = example_dag]
  have 1: "dependency_loop [7, 1, 0, - 1] example_dag = dependency_loop [1, 0, - 1] example_dag"
    using main [where task = 7 and rest = "[1, 0, - 1]", THEN conjunct1] n by simp
  have 2: "dependency_loop [1, 5, 2, 0, - 1] example_dag = dependency_loop [2, 0, - 1] example_dag"
    using main [where task = 1 and depends_on = 5 and rest = "[2, 0, - 1]", THEN conjunct2, THEN conjunct1] n by simp
  have 3: "dependency_loop [1, 1, 2, 0, - 1] example_dag = dependency_loop [2, 0, - 1] example_dag"
    using main [where task = 1 and depends_on = 1 and rest = "[2, 0, - 1]", THEN conjunct2, THEN conjunct1] n by simp
  have 4: "dependency_loop [1, 0, 1, 0, 2, 1, - 1] example_dag =
     dependency_loop [1, 0, 2, 1, - 1] example_dag"
    using main [where task = 1 and depends_on = 0 and rest = "[2, 1, - 1]", THEN conjunct2, THEN conjunct2] n e by simp
  have 5: "map dependencies (tasks (the (dependency_loop [7, 1, 0, 1, 5, 1, 1, 1, 0, 2, 1, - 1] example_dag)))
     = [[], [0], [1]]" by code_simp
  have 6: "adjacency_matrix (the (dependency_loop [7, 1, 0, 1, 5, 1, 1, 1, 0, 2, 1, - 1] example_dag))
     = [[0, 1, 0], [0, 0, 1], [0, 0, 0]]" by code_simp
  from n 1 2 3 4 5 6 show ?thesis by (intro conjI)
qed

lemma deps_in_range_iff:
  "deps_in_range ts = (\<forall>t\<in>set ts. \<forall>d\<in>set (dependencies t). 0 \<le> d \<and> d < int (length ts))"
  by (simp add: deps_in_range_def list_all_iff)

lemma add_edge_deps_in_range:
  assumes "deps_in_range (tasks d)" "0 \<le> depends_on" "depends_on < num_tasks d"
  shows "deps_in_range (tasks (add_edge d task depends_on))"
proof -
  let ?k = "(tasks d ! nat task)\<lparr>dependencies := dependencies (tasks d ! nat task) @ [depends_on]\<rparr>"
  have ts: "tasks (add_edge d task depends_on) = (tasks d)[nat task := ?k]"
    by (simp add: add_edge_def)
  show ?thesis
  proof (cases "nat task < length (tasks d)")
    case False
    then show ?thesis using assms(1) by (simp add: ts list_update_beyond)
  next
    case True
    then have "tasks d ! nat task \<in> set (tasks d)" by simp
    with assms have new: "0 \<le> x \<and> x < int (length (tasks d))"
      if "x \<in> set (dependencies ?k)" for x
      using that by (auto simp: deps_in_range_iff num_tasks_def)
    have old: "0 \<le> x \<and> x < int (length (tasks d))"
      if "t \<in> set (tasks d)" "x \<in> set (dependencies t)" for t x
      using that assms(1) unfolding deps_in_range_iff by blast
    have "0 \<le> x \<and> x < int (length (tasks d))"
      if t: "t \<in> set ((tasks d)[nat task := ?k])" and x: "x \<in> set (dependencies t)" for t x
    proof -
      from t set_update_subset_insert [of "tasks d" "nat task" ?k]
      have "t = ?k \<or> t \<in> set (tasks d)" by blast
      then show ?thesis
      proof
        assume "t = ?k"
        with x new show ?thesis by blast
      next
        assume "t \<in> set (tasks d)"
        from old [OF this x] show ?thesis .
      qed
    qed
    then show ?thesis
      unfolding ts deps_in_range_iff by simp
  qed
qed

lemma declare_dependency_deps_in_range:
  "deps_in_range (tasks d) \<Longrightarrow> deps_in_range (tasks (declare_dependency d task depends_on))"
  by (simp add: declare_dependency_def add_edge_deps_in_range)

lemma dependency_loop_deps_in_range:
  "deps_in_range (tasks d) \<Longrightarrow> dependency_loop xs d = Some d' \<Longrightarrow> deps_in_range (tasks d')"
proof (induction xs d rule: dependency_loop.induct)
  case (1 d)
  then show ?case by simp
next
  case (2 task rest d)
  show ?case
  proof (cases "task = - 1")
    case True
    with "2.prems" show ?thesis by simp
  next
    case stop: False
    show ?thesis
    proof (cases "task < 0 \<or> task \<ge> num_tasks d")
      case True
      with stop "2.prems" "2.IH"(1) show ?thesis by simp
    next
      case False
      with stop "2.prems"(2) obtain depends_on rest' where r: "rest = depends_on # rest'"
        by (cases rest) auto
      with stop False "2.prems"(2)
      have "dependency_loop rest' (declare_dependency d task depends_on) = Some d'" by simp
      with "2.IH"(2) [OF stop False r] "2.prems"(1) show ?thesis
        by (simp add: declare_dependency_deps_in_range)
    qed
  qed
qed

lemma create_custom_dag_deps_in_range:
  "create_custom_dag dps deps = Some d \<Longrightarrow> deps_in_range (tasks d)"
proof -
  have "deps_in_range (tasks (apply_rate_monotonic_scheduling (read_tasks dps)))"
    by (simp add: deps_in_range_iff apply_rate_monotonic_scheduling_def read_tasks_def
        read_task_def)
  then show "create_custom_dag dps deps = Some d \<Longrightarrow> deps_in_range (tasks d)"
    unfolding create_custom_dag_def by (rule dependency_loop_deps_in_range)
qed

end
